theory Spec2Isabelle
  imports Main "HOL-Library.Word" "HOL-Library.Monad_Syntax"
begin

unbundle bit_operations_syntax

section \<open>Machine types\<close>

text \<open>
  The driver works on \<open>uint8_t\<close> values (coordinates, geometry, buffer bytes), modelled
  as 8-bit words.  Arithmetic on them is done by C++ in \<open>int\<close> after integer promotion;
  every such intermediate value stays far below the 32-bit range, so it is modelled as an
  unbounded number: a \<open>nat\<close> (read with \<open>unat\<close>) where it is a size or an index and cannot
  be negative, an \<open>int\<close> (read with \<open>uint\<close>) otherwise.  The conversion back to a narrower
  type is written out where the source stores the result: \<open>word_of_nat\<close> or word arithmetic for
  \<open>uint8_t\<close>, and \<open>int16_t\<close> for the 16-bit signed locals and parameters.
\<close>

type_synonym uint8_t = "8 word"

definition int16_t :: "int \<Rightarrow> int" where
  "int16_t v = signed_take_bit 15 v"

section \<open>The bus transport\<close>

text \<open>
  \<open>i2c_write_blocking\<close> belongs to the SDK, not to the driver.  It is a parameter of the
  model: \<open>reply n bytes\<close> is what the n-th call on the bus returns (the number of bytes
  written, or a negative error code), and \<open>sent\<close> records every attempted write together
  with the device address it went to.
\<close>

record i2c_inst =
  reply :: "nat \<Rightarrow> uint8_t list \<Rightarrow> int"
  sent :: "(uint8_t \<times> uint8_t list) list"

definition i2c_write_blocking :: "i2c_inst \<Rightarrow> uint8_t \<Rightarrow> uint8_t list \<Rightarrow> int \<times> i2c_inst" where
  "i2c_write_blocking i2c addr src =
     (reply i2c (length (sent i2c)) src, i2c\<lparr>sent := sent i2c @ [(addr, src)]\<rparr>)"

section \<open>Command opcodes\<close>

datatype ssd1306_cmd_t =
    MEMORYMODE | COLUMNADDR | PAGEADDR | SETSTARTLINE | SETCONTRAST | CHARGEPUMP
  | SEGREMAP | DISPLAYALLON | NORMALDISPLAY | INVERTDISPLAY | SETMULTIPLEX
  | DISPLAYOFF | DISPLAYON | COMSCANDEC | SETDISPLAYOFFSET | SETDISPLAYCLOCKDIV
  | SETPRECHARGE | SETCOMPINS | SETVCOMDETECT

fun opcode :: "ssd1306_cmd_t \<Rightarrow> uint8_t" where
  "opcode MEMORYMODE = 0x20"
| "opcode COLUMNADDR = 0x21"
| "opcode PAGEADDR = 0x22"
| "opcode SETSTARTLINE = 0x40"
| "opcode SETCONTRAST = 0x81"
| "opcode CHARGEPUMP = 0x8D"
| "opcode SEGREMAP = 0xA1"
| "opcode DISPLAYALLON = 0xA4"
| "opcode NORMALDISPLAY = 0xA6"
| "opcode INVERTDISPLAY = 0xA7"
| "opcode SETMULTIPLEX = 0xA8"
| "opcode DISPLAYOFF = 0xAE"
| "opcode DISPLAYON = 0xAF"
| "opcode COMSCANDEC = 0xC8"
| "opcode SETDISPLAYOFFSET = 0xD3"
| "opcode SETDISPLAYCLOCKDIV = 0xD5"
| "opcode SETPRECHARGE = 0xD9"
| "opcode SETCOMPINS = 0xDA"
| "opcode SETVCOMDETECT = 0xDB"

section \<open>The driver object\<close>

text \<open>
  The fields of class \<open>SSD1306\<close>.  \<open>screen_buffer\<close> is the whole allocation, control byte
  first; the source's \<open>screen_ptr\<close> is \<open>screen_buffer + 1\<close>, so \<open>screen_ptr[i]\<close> is
  element \<open>i + 1\<close> of the list.
\<close>

record ssd1306 =
  width :: uint8_t
  height :: uint8_t
  pagesize :: uint8_t
  address :: uint8_t
  external_vcc :: bool
  i2c_instance :: i2c_inst
  screen_buffer :: "uint8_t list"
  screen_buffer_sz :: nat

definition write_buffer :: "ssd1306 \<Rightarrow> uint8_t list \<Rightarrow> nat \<Rightarrow> bool \<times> ssd1306" where
  "write_buffer d p_buffer p_length =
     (let (n, i2c) = i2c_write_blocking (i2c_instance d) (address d) (take p_length p_buffer)
      in (n > 0, d\<lparr>i2c_instance := i2c\<rparr>))"

text \<open>
  \<open>write_cmd\<close>: the two early returns of the source are the two \<open>\<not> ok\<close> branches.  An
  absent argument is the default \<open>-1\<close>.
\<close>

definition write_cmd :: "ssd1306 \<Rightarrow> ssd1306_cmd_t \<Rightarrow> int \<Rightarrow> int \<Rightarrow> bool \<times> ssd1306" where
  "write_cmd d p_cmd p_arg1 p_arg2 =
     (let l_buffer = [0x00, opcode p_cmd];
          (ok1, l_buffer1, d1) =
            (if p_arg1 \<ge> 0
             then let (ok, d') = write_buffer d l_buffer 2
                  in (ok, [0x00, word_of_int (p_arg1 AND 0xFF)], d')
             else (True, l_buffer, d))
      in if \<not> ok1 then (False, d1)
         else
           let (ok2, l_buffer2, d2) =
                 (if p_arg2 \<ge> 0
                  then let (ok, d') = write_buffer d1 l_buffer1 2
                       in (ok, [0x00, word_of_int (p_arg2 AND 0xFF)], d')
                  else (True, l_buffer1, d1))
           in if \<not> ok2 then (False, d2)
              else write_buffer d2 l_buffer2 2)"

section \<open>Pixels\<close>

definition set_pixel :: "ssd1306 \<Rightarrow> uint8_t \<Rightarrow> uint8_t \<Rightarrow> ssd1306" where
  "set_pixel d p_x p_y =
     (if p_x \<ge> width d \<or> p_y \<ge> height d then d
      else
        let i = unat (width d) * unat (drop_bit 3 p_y) + unat p_x;
            k = i + 1
        in d\<lparr>screen_buffer :=
               (screen_buffer d)[k := (screen_buffer d ! k) OR push_bit (unat (p_y AND 0x07)) 0x01]\<rparr>)"

definition clear_pixel :: "ssd1306 \<Rightarrow> uint8_t \<Rightarrow> uint8_t \<Rightarrow> ssd1306" where
  "clear_pixel d p_x p_y =
     (if p_x \<ge> width d \<or> p_y \<ge> height d then d
      else
        let i = unat (width d) * unat (drop_bit 3 p_y) + unat p_x;
            k = i + 1
        in d\<lparr>screen_buffer :=
               (screen_buffer d)[k := (screen_buffer d ! k) AND NOT (push_bit (unat (p_y AND 0x07)) 0x01)]\<rparr>)"

section \<open>Lines and boxes\<close>

text \<open>
  The \<open>while (true)\<close> loop of \<open>draw_line\<close>.  Nothing in its form bounds the number of
  iterations, so it is a partial function: \<open>None\<close> stands for a loop that never reaches
  its \<open>break\<close>.  The 16-bit locals are integers with the conversion to \<open>int16_t\<close> written
  at every assignment; \<open>l_x += l_sx\<close> on a \<open>uint8_t\<close> is addition modulo 256, which is
  addition of 8-bit words.
\<close>

partial_function (option) draw_line_loop ::
  "uint8_t \<Rightarrow> uint8_t \<Rightarrow> bool \<Rightarrow> int \<Rightarrow> int \<Rightarrow> int \<Rightarrow> int \<Rightarrow>
   int \<Rightarrow> uint8_t \<Rightarrow> uint8_t \<Rightarrow> ssd1306 \<Rightarrow> ssd1306 option" where
  "draw_line_loop p_x2 p_y2 p_set l_dx l_dy l_sx l_sy l_err l_x l_y d =
     (let d' = (if p_set then set_pixel d l_x l_y else clear_pixel d l_x l_y)
      in if l_x = p_x2 \<and> l_y = p_y2 then Some d'
         else
           let l_e2 = int16_t (l_err * 2);
               l_err1 = (if l_e2 \<ge> l_dy then int16_t (l_err + l_dy) else l_err);
               l_x1 = (if l_e2 \<ge> l_dy then l_x + word_of_int l_sx else l_x);
               l_err2 = (if l_e2 \<le> l_dx then int16_t (l_err1 + l_dx) else l_err1);
               l_y1 = (if l_e2 \<le> l_dx then l_y + word_of_int l_sy else l_y)
           in draw_line_loop p_x2 p_y2 p_set l_dx l_dy l_sx l_sy l_err2 l_x1 l_y1 d')"

definition draw_line ::
  "ssd1306 \<Rightarrow> uint8_t \<Rightarrow> uint8_t \<Rightarrow> uint8_t \<Rightarrow> uint8_t \<Rightarrow> bool \<Rightarrow> ssd1306 option" where
  "draw_line d p_x1 p_y1 p_x2 p_y2 p_set =
     (let l_dx = int16_t \<bar>uint p_x2 - uint p_x1\<bar>;
          l_dy = int16_t (\<bar>uint p_y2 - uint p_y1\<bar> * - 1);
          l_sx = (if p_x1 < p_x2 then 1 else - 1);
          l_sy = (if p_y1 < p_y2 then 1 else - 1);
          l_err = int16_t (l_dx + l_dy)
      in draw_line_loop p_x2 p_y2 p_set l_dx l_dy l_sx l_sy l_err p_x1 p_y1 d)"

text \<open>
  The row loop of the filled box, \<open>for (l_index = p_y + p_height + 1; l_index > p_y; l_index--)\<close>.
  Each row is drawn by \<open>draw_line\<close> with its last parameter left at the default \<open>true\<close>.
  The coordinates handed over (\<open>l_index - 1\<close>, \<open>p_x + p_width\<close>) are computed in \<open>int\<close> and
  converted to \<open>uint8_t\<close>, that is, modulo 256.
\<close>

function draw_box_rows ::
  "uint8_t \<Rightarrow> uint8_t \<Rightarrow> uint8_t \<Rightarrow> uint8_t \<Rightarrow> ssd1306 \<Rightarrow> ssd1306 option" where
  "draw_box_rows p_x p_y p_width l_index d =
     (if l_index > p_y
      then case draw_line d p_x (l_index - 1) (p_x + p_width) (l_index - 1) True of
             None \<Rightarrow> None
           | Some d' \<Rightarrow> draw_box_rows p_x p_y p_width (l_index - 1) d'
      else Some d)"
  by pat_completeness auto
termination
proof (relation "measure (\<lambda>(p_x, p_y, p_width, l_index, d). unat l_index)")
  show "wf (measure (\<lambda>(p_x, p_y, p_width, l_index, d). unat l_index))"
    by simp
next
  fix p_x p_y p_width l_index :: uint8_t and d x2 :: ssd1306
  assume "p_y < l_index"
  then have "l_index \<noteq> 0"
    by (auto simp: word_less_nat_alt)
  then have "unat (l_index - 1) < unat l_index"
    by (simp add: unat_minus_one unat_gt_0)
  then show "((p_x, p_y, p_width, l_index - 1, x2), (p_x, p_y, p_width, l_index, d))
             \<in> measure (\<lambda>(p_x, p_y, p_width, l_index, d). unat l_index)"
    by simp
qed

declare draw_box_rows.simps [simp del]

definition draw_box ::
  "ssd1306 \<Rightarrow> uint8_t \<Rightarrow> uint8_t \<Rightarrow> uint8_t \<Rightarrow> uint8_t \<Rightarrow> bool \<Rightarrow> bool \<Rightarrow> ssd1306 option" where
  "draw_box d p_x p_y p_width p_height p_filled p_set =
     (if p_filled
      then draw_box_rows p_x p_y p_width (p_y + p_height + 1) d
      else do {
        d1 \<leftarrow> draw_line d p_x p_y (p_x + p_width) p_y p_set;
        d2 \<leftarrow> draw_line d1 p_x (p_y + p_height) (p_x + p_width) (p_y + p_height) p_set;
        d3 \<leftarrow> draw_line d2 p_x p_y p_x (p_y + p_height) p_set;
        draw_line d3 (p_x + p_width) p_y (p_x + p_width) (p_y + p_height) p_set
      })"

section \<open>Glyphs and text\<close>

text \<open>
  The font table of \<open>draw_char\<close>, row by row as in the source: the glyphs of the codes
  0x20 to 0x7E, then the glyph for an undefined character.
\<close>

definition l_font :: "uint8_t list list" where
  "l_font = [
     [0b0000000, 0b0000000, 0b0000000, 0b0000000, 0b0000000],
     [0b0000000, 0b0000000, 0b1111101, 0b0000000, 0b0000000],
     [0b0000000, 0b1110000, 0b0000000, 0b1110000, 0b0000000],
     [0b0010100, 0b1111111, 0b0010100, 0b1111111, 0b0010100],
     [0b0010010, 0b0101010, 0b1111111, 0b0101010, 0b0100100],
     [0b1100010, 0b1100100, 0b0001000, 0b0010011, 0b0100011],
     [0b0110110, 0b1001001, 0b1010101, 0b0100010, 0b0000101],
     [0b0000000, 0b0000000, 0b1100000, 0b0000000, 0b0000000],
     [0b0000000, 0b0011100, 0b0100010, 0b1000001, 0b0000000],
     [0b0000000, 0b1000001, 0b0100010, 0b0011100, 0b0000000],
     [0b0010100, 0b0001000, 0b0111110, 0b0001000, 0b0010100],
     [0b0001000, 0b0001000, 0b0111110, 0b0001000, 0b0001000],
     [0b0000000, 0b0000101, 0b0000110, 0b0000000, 0b0000000],
     [0b0001000, 0b0001000, 0b0001000, 0b0001000, 0b0001000],
     [0b0000000, 0b0000011, 0b0000011, 0b0000000, 0b0000000],
     [0b0000010, 0b0000100, 0b0001000, 0b0010000, 0b0100000],
     [0b0111110, 0b1000101, 0b1001001, 0b1010001, 0b0111110],
     [0b0000000, 0b0100001, 0b1111111, 0b0000001, 0b0000000],
     [0b0100011, 0b1000101, 0b1001001, 0b1001001, 0b0110001],
     [0b0100010, 0b1000001, 0b1001001, 0b1001001, 0b0110110],
     [0b0001100, 0b0010100, 0b0100100, 0b1111111, 0b0000100],
     [0b1110010, 0b1010001, 0b1010001, 0b1010001, 0b1001110],
     [0b0011110, 0b0101001, 0b1001001, 0b1001001, 0b0000110],
     [0b1000000, 0b1000111, 0b1001000, 0b1010000, 0b1100000],
     [0b0110110, 0b1001001, 0b1001001, 0b1001001, 0b0110110],
     [0b0110000, 0b1001001, 0b1001001, 0b1001010, 0b0111100],
     [0b0000000, 0b0110110, 0b0110110, 0b0000000, 0b0000000],
     [0b0000000, 0b0110101, 0b0110110, 0b0000000, 0b0000000],
     [0b0001000, 0b0010100, 0b0100010, 0b1000001, 0b0000000],
     [0b0010100, 0b0010100, 0b0010100, 0b0010100, 0b0010100],
     [0b0000000, 0b1000001, 0b0100010, 0b0010100, 0b0001000],
     [0b0100000, 0b1000000, 0b1000101, 0b1001000, 0b0110000],
     [0b0100110, 0b1001001, 0b1001111, 0b1000001, 0b0111110],
     [0b0011111, 0b0100100, 0b1000100, 0b0100100, 0b0011111],
     [0b1000001, 0b1111111, 0b1001001, 0b1001001, 0b0110110],
     [0b0111110, 0b1000001, 0b1000001, 0b1000001, 0b0100010],
     [0b1000001, 0b1111111, 0b1000001, 0b1000001, 0b0111110],
     [0b1111111, 0b1001001, 0b1001001, 0b1001001, 0b1000001],
     [0b1111111, 0b1001000, 0b1001000, 0b1001000, 0b1000000],
     [0b0111110, 0b1000001, 0b1000001, 0b1001001, 0b0101111],
     [0b1111111, 0b0001000, 0b0001000, 0b0001000, 0b1111111],
     [0b0000000, 0b1000001, 0b1111111, 0b1000001, 0b0000000],
     [0b0000010, 0b0000001, 0b1000001, 0b1111110, 0b1000000],
     [0b1111111, 0b0001000, 0b0010100, 0b0100010, 0b1000001],
     [0b1111111, 0b0000001, 0b0000001, 0b0000001, 0b0000001],
     [0b1111111, 0b0100000, 0b0011000, 0b0100000, 0b1111111],
     [0b1111111, 0b0010000, 0b0001000, 0b0000100, 0b1111111],
     [0b0111110, 0b1000001, 0b1000001, 0b1000001, 0b0111110],
     [0b1111111, 0b1001000, 0b1001000, 0b1001000, 0b0110000],
     [0b0111110, 0b1000001, 0b1000101, 0b1000010, 0b0111101],
     [0b1111111, 0b1001000, 0b1001100, 0b1001010, 0b0110001],
     [0b0110010, 0b1001001, 0b1001001, 0b1001001, 0b0100110],
     [0b1000000, 0b1000000, 0b1111111, 0b1000000, 0b1000000],
     [0b1111110, 0b0000001, 0b0000001, 0b0000001, 0b1111110],
     [0b1111100, 0b0000010, 0b0000001, 0b0000010, 0b1111100],
     [0b1111110, 0b0000001, 0b0001110, 0b0000001, 0b1111110],
     [0b1100011, 0b0010100, 0b0001000, 0b0010100, 0b1100011],
     [0b1110000, 0b0001000, 0b0000111, 0b0001000, 0b1110000],
     [0b1000011, 0b1000101, 0b1001001, 0b1010001, 0b1100001],
     [0b0000000, 0b1111111, 0b1000001, 0b1000001, 0b0000000],
     [0b0100000, 0b0010000, 0b0001000, 0b0000100, 0b0000010],
     [0b0000000, 0b1000001, 0b1000001, 0b1111111, 0b0000000],
     [0b0010000, 0b0100000, 0b1000000, 0b0100000, 0b0010000],
     [0b0000001, 0b0000001, 0b0000001, 0b0000001, 0b0000001],
     [0b0000000, 0b1000000, 0b0100000, 0b0010000, 0b0000000],
     [0b0000010, 0b0010101, 0b0010101, 0b0010101, 0b0001111],
     [0b1111111, 0b0001001, 0b0010001, 0b0010001, 0b0001110],
     [0b0001110, 0b0010001, 0b0010001, 0b0010001, 0b0000010],
     [0b0001110, 0b0010001, 0b0010001, 0b0001001, 0b1111111],
     [0b0001110, 0b0010101, 0b0010101, 0b0010101, 0b0001100],
     [0b0001000, 0b0111111, 0b1001000, 0b1000000, 0b0100000],
     [0b0001000, 0b0010101, 0b0010101, 0b0010101, 0b0011110],
     [0b1111111, 0b0001000, 0b0010000, 0b0010000, 0b0001111],
     [0b0000000, 0b0001001, 0b1011111, 0b0000001, 0b0000000],
     [0b0000010, 0b0000001, 0b0010001, 0b1011110, 0b0000000],
     [0b1111111, 0b0000100, 0b0001010, 0b0010001, 0b0000000],
     [0b0000000, 0b1000001, 0b1111111, 0b0000001, 0b0000000],
     [0b0011111, 0b0010000, 0b0001111, 0b0010000, 0b0001111],
     [0b0011111, 0b0001000, 0b0010000, 0b0010000, 0b0001111],
     [0b0001110, 0b0010001, 0b0010001, 0b0010001, 0b0001110],
     [0b0011111, 0b0010100, 0b0010100, 0b0010100, 0b0001000],
     [0b0001000, 0b0010100, 0b0010100, 0b0001100, 0b0011111],
     [0b0011111, 0b0001000, 0b0010000, 0b0010000, 0b0001000],
     [0b0001001, 0b0010101, 0b0010101, 0b0010101, 0b0000010],
     [0b0010000, 0b1111110, 0b0010001, 0b0000001, 0b0000010],
     [0b0011110, 0b0000001, 0b0000001, 0b0000010, 0b0011111],
     [0b0011100, 0b0000010, 0b0000001, 0b0000010, 0b0011100],
     [0b0011110, 0b0000001, 0b0000110, 0b0000001, 0b0011110],
     [0b0010001, 0b0001010, 0b0000100, 0b0001010, 0b0010001],
     [0b0011000, 0b0000101, 0b0000101, 0b0000101, 0b0011110],
     [0b0010001, 0b0010011, 0b0010101, 0b0011001, 0b0010001],
     [0b0000000, 0b0001000, 0b0110110, 0b1000001, 0b0000000],
     [0b0000000, 0b0000000, 0b1111111, 0b0000000, 0b0000000],
     [0b0000000, 0b1000001, 0b0110110, 0b0001000, 0b0000000],
     [0b0000100, 0b0001000, 0b0001000, 0b0000100, 0b0001000],
     [0b0000110, 0b0001001, 0b1010001, 0b0000001, 0b0000010]
   ]"

text \<open>
  Reading \<open>l_font[l_char][l_x]\<close>.  A row index beyond the table is a read outside the
  array, which C++ leaves undefined; the model reports it as a fault that carries the
  index.
\<close>

datatype fault = FontRowOutOfRange nat

definition font_column :: "uint8_t \<Rightarrow> uint8_t \<Rightarrow> fault + uint8_t" where
  "font_column l_char l_x =
     (if unat l_char < length l_font then Inr (l_font ! unat l_char ! unat l_x)
      else Inl (FontRowOutOfRange (unat l_char)))"

text \<open>The inner loop over \<open>l_y\<close> and the outer loop over \<open>l_x\<close>, each over its list of counter values.\<close>

fun draw_char_rows ::
  "uint8_t \<Rightarrow> uint8_t \<Rightarrow> uint8_t \<Rightarrow> bool \<Rightarrow> uint8_t \<Rightarrow> uint8_t list \<Rightarrow> ssd1306 \<Rightarrow> fault + ssd1306" where
  "draw_char_rows p_x p_y l_char p_set l_x [] d = Inr d"
| "draw_char_rows p_x p_y l_char p_set l_x (l_y # ys) d =
     (case font_column l_char l_x of
        Inl f \<Rightarrow> Inl f
      | Inr col \<Rightarrow>
          draw_char_rows p_x p_y l_char p_set l_x ys
            (if push_bit (unat (6 - l_y)) 0x01 AND col \<noteq> 0
             then (if p_set then set_pixel d (p_x + l_x) (p_y + l_y)
                   else clear_pixel d (p_x + l_x) (p_y + l_y))
             else d))"

fun draw_char_cols ::
  "uint8_t \<Rightarrow> uint8_t \<Rightarrow> uint8_t \<Rightarrow> bool \<Rightarrow> uint8_t list \<Rightarrow> ssd1306 \<Rightarrow> fault + ssd1306" where
  "draw_char_cols p_x p_y l_char p_set [] d = Inr d"
| "draw_char_cols p_x p_y l_char p_set (l_x # xs) d =
     (case draw_char_rows p_x p_y l_char p_set l_x [0, 1, 2, 3, 4, 5, 6] d of
        Inl f \<Rightarrow> Inl f
      | Inr d' \<Rightarrow> draw_char_cols p_x p_y l_char p_set xs d')"

text \<open>
  \<open>p_char\<close> is a \<open>char\<close>, given here by its byte.  Whether \<open>char\<close> is signed or not, the
  test \<open>p_char < 0x20 || p_char > 0x7E\<close> holds exactly for the bytes below 0x20 and above
  0x7E: a byte from 0x80 on is either negative or greater than 0x7E.
\<close>

definition draw_char :: "ssd1306 \<Rightarrow> uint8_t \<Rightarrow> uint8_t \<Rightarrow> uint8_t \<Rightarrow> bool \<Rightarrow> fault + ssd1306" where
  "draw_char d p_x p_y p_char p_set =
     (let l_char = (if p_char < 0x20 \<or> p_char > 0x7E then 0x7F else p_char - 0x20)
      in draw_char_cols p_x p_y l_char p_set [0, 1, 2, 3, 4] d)"

text \<open>
  \<open>draw_text\<close>.  \<open>p_text\<close> holds the bytes of the C string; \<open>strlen\<close> counts up to the
  first NUL.  The x-origin \<open>p_x + l_index * 6\<close> is computed in \<open>size_t\<close> and converted to
  the \<open>uint8_t\<close> parameter of \<open>draw_char\<close>, that is, modulo 256.
\<close>

definition strlen :: "uint8_t list \<Rightarrow> nat" where
  "strlen p_text = length (takeWhile (\<lambda>c. c \<noteq> 0) p_text)"

function draw_text_loop ::
  "uint8_t \<Rightarrow> uint8_t \<Rightarrow> uint8_t list \<Rightarrow> bool \<Rightarrow> nat \<Rightarrow> nat \<Rightarrow> ssd1306 \<Rightarrow> fault + ssd1306" where
  "draw_text_loop p_x p_y p_text p_set l_strlen l_index d =
     (if l_index < l_strlen
      then case draw_char d (p_x + word_of_nat (l_index * 6)) p_y (p_text ! l_index) p_set of
             Inl f \<Rightarrow> Inl f
           | Inr d' \<Rightarrow> draw_text_loop p_x p_y p_text p_set l_strlen (l_index + 1) d'
      else Inr d)"
  by pat_completeness auto
termination
  by (relation "measure (\<lambda>(p_x, p_y, p_text, p_set, l_strlen, l_index, d). l_strlen - l_index)") auto

declare draw_text_loop.simps [simp del]

definition draw_text :: "ssd1306 \<Rightarrow> uint8_t \<Rightarrow> uint8_t \<Rightarrow> uint8_t list \<Rightarrow> bool \<Rightarrow> fault + ssd1306" where
  "draw_text d p_x p_y p_text p_set =
     draw_text_loop p_x p_y p_text p_set (strlen p_text) 0 d"

text \<open>The bytes of a string literal.\<close>

definition c_str :: "string \<Rightarrow> uint8_t list" where
  "c_str s = map (\<lambda>c. word_of_nat (of_char c)) s"

section \<open>Construction and device control\<close>

text \<open>
  The constructor.  \<open>new uint8_t[n]\<close> leaves the allocation uninitialised, so its content
  is a parameter: \<open>fresh i\<close> is the byte found at offset \<open>i\<close>.  The results of the sixteen
  \<open>write_cmd\<close> calls are discarded, as in the source.
\<close>

definition SSD1306 ::
  "uint8_t \<Rightarrow> uint8_t \<Rightarrow> i2c_inst \<Rightarrow> uint8_t \<Rightarrow> bool \<Rightarrow> (nat \<Rightarrow> uint8_t) \<Rightarrow> ssd1306" where
  "SSD1306 p_width p_height p_i2c p_address p_ext_vcc fresh =
     (let l_pagesize = (word_of_nat ((unat p_height + 7) div 8) :: uint8_t);
          l_sz = unat p_width * unat l_pagesize + 1;
          d0 = \<lparr>width = p_width, height = p_height, pagesize = l_pagesize,
                address = p_address, external_vcc = p_ext_vcc, i2c_instance = p_i2c,
                screen_buffer = map fresh [0..<l_sz], screen_buffer_sz = l_sz\<rparr>;
          d1 = snd (write_cmd d0 DISPLAYOFF (-1) (-1));
          d2 = snd (write_cmd d1 SETDISPLAYCLOCKDIV 0x80 (-1));
          d3 = snd (write_cmd d2 SETMULTIPLEX (int16_t (uint (height d2) - 1)) (-1));
          d4 = snd (write_cmd d3 SETDISPLAYOFFSET 0x00 (-1));
          d5 = snd (write_cmd d4 SETSTARTLINE (-1) (-1));
          d6 = snd (write_cmd d5 CHARGEPUMP (if external_vcc d5 then 0x10 else 0x14) (-1));
          d7 = snd (write_cmd d6 MEMORYMODE 0x00 (-1));
          d8 = snd (write_cmd d7 SEGREMAP (-1) (-1));
          d9 = snd (write_cmd d8 COMSCANDEC (-1) (-1));
          d10 = snd (write_cmd d9 SETCOMPINS (if height d9 = 64 then 0x12 else 0x02) (-1));
          d11 = snd (write_cmd d10 SETCONTRAST 0xFF (-1));
          d12 = snd (write_cmd d11 SETPRECHARGE (if external_vcc d11 then 0x22 else 0xF1) (-1));
          d13 = snd (write_cmd d12 SETVCOMDETECT 0x40 (-1));
          d14 = snd (write_cmd d13 DISPLAYALLON (-1) (-1));
          d15 = snd (write_cmd d14 NORMALDISPLAY (-1) (-1));
          d16 = snd (write_cmd d15 DISPLAYON (-1) (-1))
      in d16)"

definition clear :: "ssd1306 \<Rightarrow> ssd1306" where
  "clear d = d\<lparr>screen_buffer := replicate (screen_buffer_sz d) 0\<rparr>"

text \<open>
  \<open>render\<close> returns \<open>void\<close>: the results of its three writes are dropped.  The local
  \<open>l_cmd_buffer\<close> of the source is filled in but never read, so it has no counterpart here.
\<close>

definition render :: "ssd1306 \<Rightarrow> ssd1306" where
  "render d =
     (let d1 = snd (write_cmd d PAGEADDR 0 (int16_t (uint (pagesize d) - 1)));
          d2 = snd (write_cmd d1 COLUMNADDR 0 (int16_t (uint (width d1) - 1)));
          d3 = d2\<lparr>screen_buffer := (screen_buffer d2)[0 := 0x40]\<rparr>;
          d4 = snd (write_buffer d3 (screen_buffer d3) (screen_buffer_sz d3))
      in d4)"

definition set_contrast :: "ssd1306 \<Rightarrow> uint8_t \<Rightarrow> ssd1306" where
  "set_contrast d p_contrast = snd (write_cmd d SETCONTRAST (int16_t (uint p_contrast)) (-1))"

definition set_invert :: "ssd1306 \<Rightarrow> bool \<Rightarrow> ssd1306" where
  "set_invert d p_invert =
     (if p_invert then snd (write_cmd d INVERTDISPLAY (-1) (-1))
      else snd (write_cmd d NORMALDISPLAY (-1) (-1)))"

section \<open>Observers used in the statements\<close>

text \<open>
  These are not functions of the driver; they name what the statements below talk about.
  \<open>bus_log\<close> is the list of writes attempted so far, \<open>bus_ok d k bytes\<close> says whether the
  \<open>k\<close>-th write from now would be accepted when it carries \<open>bytes\<close> (the test of
  \<open>write_buffer\<close>: a positive return value), and \<open>pixel_at\<close> reads the bit that the data
  model assigns to pixel \<open>(x, y)\<close>: bit \<open>y mod 8\<close> of the byte at column \<open>x\<close>, page
  \<open>y div 8\<close>, behind the control byte.  \<open>geometry_ok\<close> is the relation between the fields
  that the constructor sets up.
\<close>

definition bus_log :: "ssd1306 \<Rightarrow> (uint8_t \<times> uint8_t list) list" where
  "bus_log d = sent (i2c_instance d)"

definition bus_ok :: "ssd1306 \<Rightarrow> nat \<Rightarrow> uint8_t list \<Rightarrow> bool" where
  "bus_ok d k bytes = (reply (i2c_instance d) (length (bus_log d) + k) bytes > 0)"

definition byte_index :: "ssd1306 \<Rightarrow> uint8_t \<Rightarrow> uint8_t \<Rightarrow> nat" where
  "byte_index d x y = 1 + unat (width d) * (unat y div 8) + unat x"

definition pixel_at :: "ssd1306 \<Rightarrow> uint8_t \<Rightarrow> uint8_t \<Rightarrow> bool" where
  "pixel_at d x y = bit (screen_buffer d ! byte_index d x y) (unat y mod 8)"

definition geometry_ok :: "ssd1306 \<Rightarrow> bool" where
  "geometry_ok d \<longleftrightarrow>
     unat (pagesize d) = (unat (height d) + 7) div 8 \<and>
     screen_buffer_sz d = unat (width d) * unat (pagesize d) + 1 \<and>
     length (screen_buffer d) = screen_buffer_sz d"

text \<open>
  \<open>after_writes d ws\<close> is the driver \<open>d\<close> once the writes \<open>ws\<close> have been attempted, in
  this order, at its own address: the log has grown by them and nothing else has changed.
\<close>

definition after_writes :: "ssd1306 \<Rightarrow> uint8_t list list \<Rightarrow> ssd1306" where
  "after_writes d ws =
     d\<lparr>i2c_instance := (i2c_instance d)\<lparr>sent := sent (i2c_instance d) @ map (Pair (address d)) ws\<rparr>\<rparr>"

text \<open>
  Every drawing routine does nothing to the driver but set or clear pixels one after the
  other.  \<open>plot_all p_set pts d\<close> is the driver after the pixels \<open>pts\<close> have been set (or
  cleared) in this order by \<open>set_pixel\<close> (\<open>clear_pixel\<close>); the statements below use it to
  say which pixels a routine touches.  \<open>glyph_cells l_char\<close> lists the cells \<open>(l_x, l_y)\<close>
  of font row \<open>l_char\<close> whose bit \<open>6 - l_y\<close> is set in column \<open>l_x\<close>, in the order of the
  two loops of \<open>draw_char\<close>, and \<open>word_run a b\<close> the 8-bit values met when counting
  from \<open>a\<close> to \<open>b\<close> in steps of one, both ends included.
\<close>

definition plot :: "bool \<Rightarrow> uint8_t \<times> uint8_t \<Rightarrow> ssd1306 \<Rightarrow> ssd1306" where
  "plot p_set p d = (if p_set then set_pixel d (fst p) (snd p) else clear_pixel d (fst p) (snd p))"

definition plot_all :: "bool \<Rightarrow> (uint8_t \<times> uint8_t) list \<Rightarrow> ssd1306 \<Rightarrow> ssd1306" where
  "plot_all p_set pts d = fold (plot p_set) pts d"

definition glyph_cells :: "uint8_t \<Rightarrow> (uint8_t \<times> uint8_t) list" where
  "glyph_cells l_char =
     concat (map (\<lambda>l_x. map (Pair l_x)
                    (filter (\<lambda>l_y. push_bit (unat (6 - l_y)) 0x01 AND (l_font ! unat l_char ! unat l_x) \<noteq> 0)
                       [0, 1, 2, 3, 4, 5, 6]))
               [0, 1, 2, 3, 4])"

definition word_run :: "uint8_t \<Rightarrow> uint8_t \<Rightarrow> uint8_t list" where
  "word_run a b =
     (if a \<le> b then map word_of_nat [unat a..<Suc (unat b)]
      else rev (map word_of_nat [unat b..<Suc (unat a)]))"

text \<open>
  The pixels of a box.  \<open>row_cells x w b\<close> is row \<open>b\<close> from column \<open>x\<close> to column \<open>x + w\<close>
  (an 8-bit sum), \<open>column_cells a y h\<close> is column \<open>a\<close> from row \<open>y\<close> to row \<open>y + h\<close>, and
  \<open>rows_down i y\<close> lists the rows the loop of the filled box draws when its counter starts
  at \<open>i\<close>: \<open>i - 1\<close> down to \<open>y\<close>, none when \<open>i\<close> is not above \<open>y\<close>.
\<close>

definition row_cells :: "uint8_t \<Rightarrow> uint8_t \<Rightarrow> uint8_t \<Rightarrow> (uint8_t \<times> uint8_t) list" where
  "row_cells x w b = map (\<lambda>a. (a, b)) (word_run x (x + w))"

definition column_cells :: "uint8_t \<Rightarrow> uint8_t \<Rightarrow> uint8_t \<Rightarrow> (uint8_t \<times> uint8_t) list" where
  "column_cells a y h = map (\<lambda>b. (a, b)) (word_run y (y + h))"

definition rows_down :: "uint8_t \<Rightarrow> uint8_t \<Rightarrow> uint8_t list" where
  "rows_down i y = (if y < i then word_run (i - 1) y else [])"

text \<open>
  \<open>outline_cells\<close> lists the pixels of the four edges of a box in the order the unfilled
  \<open>draw_box\<close> draws them (top, bottom, left, right), and \<open>filled_cells\<close> the pixels of the
  rows of the filled box, bottom row first; the filled box has no row at all when
  \<open>p_y + p_height + 1\<close> exceeds 255.
\<close>

definition outline_cells ::
  "uint8_t \<Rightarrow> uint8_t \<Rightarrow> uint8_t \<Rightarrow> uint8_t \<Rightarrow> (uint8_t \<times> uint8_t) list" where
  "outline_cells x y w h =
     row_cells x w y @ row_cells x w (y + h) @ column_cells x y h @ column_cells (x + w) y h"

definition filled_cells ::
  "uint8_t \<Rightarrow> uint8_t \<Rightarrow> uint8_t \<Rightarrow> uint8_t \<Rightarrow> (uint8_t \<times> uint8_t) list" where
  "filled_cells x y w h =
     concat (map (row_cells x w) (if unat y + unat h < 255 then word_run (y + h) y else []))"

text \<open>A bus that accepts every write, and one that refuses every write.\<close>

definition good_bus :: i2c_inst where
  "good_bus = \<lparr>reply = (\<lambda>n bytes. int (length bytes)), sent = []\<rparr>"

definition dead_bus :: i2c_inst where
  "dead_bus = \<lparr>reply = (\<lambda>n bytes. - 1), sent = []\<rparr>"

text \<open>A bus that refuses exactly its \<open>m\<close>-th write and accepts every other one.\<close>

definition flaky_bus :: "nat \<Rightarrow> i2c_inst" where
  "flaky_bus m = \<lparr>reply = (\<lambda>n bytes. if n = m then - 1 else int (length bytes)), sent = []\<rparr>"

text \<open>
  The display of the example program: 128 by 32 pixels at address 0x3C, internal power.
  Its bus accepts every write and its fresh buffer happens to hold zeros.
\<close>

definition l_display :: ssd1306 where
  "l_display = SSD1306 128 32 good_bus 0x3C False (\<lambda>i. 0)"

section \<open>Bus writes\<close>

lemma after_writes_fields [simp]:
  "width (after_writes d ws) = width d"
  "height (after_writes d ws) = height d"
  "pagesize (after_writes d ws) = pagesize d"
  "address (after_writes d ws) = address d"
  "external_vcc (after_writes d ws) = external_vcc d"
  "screen_buffer (after_writes d ws) = screen_buffer d"
  "screen_buffer_sz (after_writes d ws) = screen_buffer_sz d"
  "bus_log (after_writes d ws) = bus_log d @ map (Pair (address d)) ws"
  "reply (i2c_instance (after_writes d ws)) = reply (i2c_instance d)"
  by (simp_all add: after_writes_def bus_log_def)

lemma after_writes_twice [simp]:
  "after_writes (after_writes d ws) vs = after_writes d (ws @ vs)"
  by (simp add: after_writes_def)

lemma after_writes_screen_buffer:
  "after_writes (d\<lparr>screen_buffer := b\<rparr>) ws = (after_writes d ws)\<lparr>screen_buffer := b\<rparr>"
  by (simp add: after_writes_def)

lemma bus_ok_after_writes [simp]:
  "bus_ok (after_writes d ws) k bytes = bus_ok d (length ws + k) bytes"
  by (simp add: bus_ok_def add.assoc)

lemma sent_after_writes [simp]:
  "sent (i2c_instance (after_writes d ws)) = sent (i2c_instance d) @ map (Pair (address d)) ws"
  by (simp add: after_writes_def)

lemma bus_log_record:
  "bus_log \<lparr>width = w, height = h, pagesize = p, address = a, external_vcc = e,
            i2c_instance = i, screen_buffer = b, screen_buffer_sz = n\<rparr> = sent i"
  by (simp add: bus_log_def)

lemma bus_ok_record:
  "bus_ok \<lparr>width = w, height = h, pagesize = p, address = a, external_vcc = e,
            i2c_instance = i, screen_buffer = b, screen_buffer_sz = n\<rparr> k bytes
     = (reply i (length (sent i) + k) bytes > 0)"
  by (simp add: bus_ok_def bus_log_def)

lemma write_buffer_eq:
  "write_buffer d buf n = (bus_ok d 0 (take n buf), after_writes d [take n buf])"
  by (simp add: write_buffer_def i2c_write_blocking_def bus_ok_def bus_log_def after_writes_def)

lemma int16_t_id: "- 32768 \<le> v \<Longrightarrow> v < 32768 \<Longrightarrow> int16_t v = v"
  unfolding int16_t_def by (simp add: signed_take_bit_int_eq_self)

lemma int16_t_minus_one: "int16_t (- 1) = - 1"
  by (simp add: int16_t_def)

lemma and_0xFF: "0 \<le> v \<Longrightarrow> v < 256 \<Longrightarrow> (v::int) AND 0xFF = v"
proof -
  assume v: "0 \<le> v" "v < 256"
  have "v AND 0xFF = take_bit 8 v"
    by (simp add: take_bit_eq_mask mask_eq_exp_minus_1)
  also have "\<dots> = v"
    using v by (simp add: take_bit_int_eq_self)
  finally show ?thesis .
qed

lemma uint8_lt_256: "uint (a :: uint8_t) < 256"
  using uint_lt2p [of a] by simp

lemma unat8_lt_256: "unat (a :: uint8_t) < 256"
proof -
  have "unat a < 2 ^ LENGTH(8)"
    by (rule unsigned_less)
  then show ?thesis
    by simp
qed

lemma unat_of_nat8: "n < 256 \<Longrightarrow> unat (word_of_nat n :: uint8_t) = n"
  by (simp add: unat_of_nat)

lemma arg_byte: "word_of_int (uint (a :: uint8_t) AND 0xFF) = a"
  by (simp add: and_0xFF uint8_lt_256)

lemma minus_one_arg:
  fixes h :: uint8_t
  assumes "h \<noteq> 0"
  shows "0 \<le> int16_t (uint h - 1)" and "word_of_int (int16_t (uint h - 1) AND 0xFF) = h - 1"
proof -
  have pos: "0 < uint h"
    using assms uint_0_iff [of h] uint_ge_0 [of h] by linarith
  have id: "int16_t (uint h - 1) = uint h - 1"
    using pos uint8_lt_256 [of h] by (simp add: int16_t_id)
  show "0 \<le> int16_t (uint h - 1)"
    using pos id by simp
  have "word_of_int (uint h - 1) = h - 1"
    by simp
  then show "word_of_int (int16_t (uint h - 1) AND 0xFF) = h - 1"
    using pos uint8_lt_256 [of h] id by (simp add: and_0xFF)
qed

subsection \<open>What one command writes\<close>

lemma write_cmd0:
  "write_cmd d c (- 1) (- 1) = (bus_ok d 0 [0, opcode c], after_writes d [[0, opcode c]])"
  by (simp add: write_cmd_def write_buffer_eq Let_def)

lemma write_cmd1:
  "0 \<le> a1 \<Longrightarrow> write_cmd d c a1 (- 1) =
     (bus_ok d 0 [0, opcode c] \<and> bus_ok d 1 [0, word_of_int (a1 AND 0xFF)],
      after_writes d (if bus_ok d 0 [0, opcode c] then [[0, opcode c], [0, word_of_int (a1 AND 0xFF)]] else [[0, opcode c]]))"
  by (simp add: write_cmd_def write_buffer_eq Let_def)

lemma write_cmd2:
  "0 \<le> a1 \<Longrightarrow> 0 \<le> a2 \<Longrightarrow> write_cmd d c a1 a2 =
     (bus_ok d 0 [0, opcode c] \<and> bus_ok d 1 [0, word_of_int (a1 AND 0xFF)] \<and> bus_ok d 2 [0, word_of_int (a2 AND 0xFF)],
      after_writes d
        (if \<not> bus_ok d 0 [0, opcode c] then [[0, opcode c]]
         else if \<not> bus_ok d 1 [0, word_of_int (a1 AND 0xFF)] then [[0, opcode c], [0, word_of_int (a1 AND 0xFF)]]
         else [[0, opcode c], [0, word_of_int (a1 AND 0xFF)], [0, word_of_int (a2 AND 0xFF)]]))"
  by (simp add: write_cmd_def write_buffer_eq Let_def numeral_2_eq_2)

lemma snd_write_cmd0: "snd (write_cmd d c (- 1) (- 1)) = after_writes d [[0x00, opcode c]]"
  by (simp add: write_cmd0)

lemma snd_write_cmd1_ok:
  "bus_ok d 0 [0x00, opcode c] \<Longrightarrow> 0 \<le> a \<Longrightarrow>
     snd (write_cmd d c a (- 1)) = after_writes d [[0x00, opcode c], [0x00, word_of_int (a AND 0xFF)]]"
  by (simp add: write_cmd1)

lemma write_cmd_last_arg:
  fixes v :: uint8_t
  shows "write_cmd d c 0 (int16_t (uint v - 1)) =
     (let ok0 = bus_ok d 0 [0x00, opcode c];
          ok1 = bus_ok d 1 [0x00, 0x00];
          k = (if \<not> ok0 then 1 else if v = 0 \<or> \<not> ok1 then 2 else 3 :: nat)
      in (ok0 \<and> ok1 \<and> (v \<noteq> 0 \<longrightarrow> bus_ok d 2 [0x00, v - 1]),
          after_writes d (take k [[0x00, opcode c], [0x00, 0x00], [0x00, v - 1]])))"
proof (cases "v = 0")
  case True
  then show ?thesis
    by (simp add: int16_t_minus_one write_cmd1 Let_def)
next
  case False
  from minus_one_arg [OF False] show ?thesis
    using False by (simp add: write_cmd2 Let_def)
qed

lemma snd_write_cmd_last_arg:
  fixes v :: uint8_t
  shows "snd (write_cmd d c 0 (int16_t (uint v - 1))) =
     after_writes d
       (take (if \<not> bus_ok d 0 [0x00, opcode c] then 1
              else if v = 0 \<or> \<not> bus_ok d 1 [0x00, 0x00] then 2 else 3)
          [[0x00, opcode c], [0x00, 0x00], [0x00, v - 1]])"
  by (simp add: write_cmd_last_arg Let_def)

subsection \<open>The constructor\<close>

text \<open>
  When the bus accepts the 25 two-byte writes that follow and the height is not 0, the constructed
  driver is the record of its fields with the 25 units of the initialisation logged.
\<close>

lemma pagesize_value:
  "unat (word_of_nat ((unat (h :: uint8_t) + 7) div 8) :: uint8_t) = (unat h + 7) div 8"
proof -
  have "(unat h + 7) div 8 < 256"
    using unat8_lt_256 [of h] by simp
  then show ?thesis
    by (rule unat_of_nat8)
qed

lemma write_cmd1_accepted:
  fixes v :: uint8_t
  assumes "bus_ok d0 (length ws) [0x00, opcode c]"
  shows "snd (write_cmd (after_writes d0 ws) c (uint v) (- 1)) =
           after_writes d0 (ws @ [[0x00, opcode c], [0x00, v]])"
  using assms by (simp add: snd_write_cmd1_ok arg_byte)

lemma write_cmd0_after:
  "snd (write_cmd (after_writes d0 ws) c (- 1) (- 1)) = after_writes d0 (ws @ [[0x00, opcode c]])"
  by (simp add: snd_write_cmd0)

lemma SSD1306_accepted:
  assumes acc: "\<forall>k<25. \<forall>b. reply p_i2c (length (sent p_i2c) + k) [0x00, b] > 0"
    and h: "p_height \<noteq> 0"
  shows "SSD1306 p_width p_height p_i2c p_address p_ext_vcc fresh =
     after_writes
       \<lparr>width = p_width, height = p_height,
        pagesize = word_of_nat ((unat p_height + 7) div 8),
        address = p_address, external_vcc = p_ext_vcc, i2c_instance = p_i2c,
        screen_buffer = map fresh [0..<unat p_width * ((unat p_height + 7) div 8) + 1],
        screen_buffer_sz = unat p_width * ((unat p_height + 7) div 8) + 1\<rparr>
       [[0x00, 0xAE],
        [0x00, 0xD5], [0x00, 0x80],
        [0x00, 0xA8], [0x00, p_height - 1],
        [0x00, 0xD3], [0x00, 0x00],
        [0x00, 0x40],
        [0x00, 0x8D], [0x00, if p_ext_vcc then 0x10 else 0x14],
        [0x00, 0x20], [0x00, 0x00],
        [0x00, 0xA1],
        [0x00, 0xC8],
        [0x00, 0xDA], [0x00, if p_height = 64 then 0x12 else 0x02],
        [0x00, 0x81], [0x00, 0xFF],
        [0x00, 0xD9], [0x00, if p_ext_vcc then 0x22 else 0xF1],
        [0x00, 0xDB], [0x00, 0x40],
        [0x00, 0xA4],
        [0x00, 0xA6],
        [0x00, 0xAF]]"
proof -
  define d0 where "d0 =
       \<lparr>width = p_width, height = p_height,
        pagesize = (word_of_nat ((unat p_height + 7) div 8) :: uint8_t),
        address = p_address, external_vcc = p_ext_vcc, i2c_instance = p_i2c,
        screen_buffer = map fresh [0..<unat p_width * ((unat p_height + 7) div 8) + 1],
        screen_buffer_sz = unat p_width * ((unat p_height + 7) div 8) + 1\<rparr>"
  have flds: "height d0 = p_height" "external_vcc d0 = p_ext_vcc"
    by (simp_all add: d0_def)
  have ok: "bus_ok d0 k [0x00, b]" if "k < 25" for k b
    using acc that by (simp add: bus_ok_def bus_log_def d0_def)
  show ?thesis
    unfolding SSD1306_def Let_def pagesize_value d0_def [symmetric]
    using minus_one_arg [OF h]
    by (simp add: snd_write_cmd0 snd_write_cmd1_ok ok flds)
qed

text \<open>Whatever the bus does, a command changes nothing but the bus.\<close>

lemma write_cmd_fields [simp]:
  "width (snd (write_cmd d c a b)) = width d"
  "height (snd (write_cmd d c a b)) = height d"
  "pagesize (snd (write_cmd d c a b)) = pagesize d"
  "address (snd (write_cmd d c a b)) = address d"
  "external_vcc (snd (write_cmd d c a b)) = external_vcc d"
  "screen_buffer (snd (write_cmd d c a b)) = screen_buffer d"
  "screen_buffer_sz (snd (write_cmd d c a b)) = screen_buffer_sz d"
  "reply (i2c_instance (snd (write_cmd d c a b))) = reply (i2c_instance d)"
  by (simp_all add: write_cmd_def write_buffer_eq Let_def)

lemma SSD1306_fields:
  "width (SSD1306 w h i a e f) = w"
  "height (SSD1306 w h i a e f) = h"
  "unat (pagesize (SSD1306 w h i a e f)) = (unat h + 7) div 8"
  "address (SSD1306 w h i a e f) = a"
  "external_vcc (SSD1306 w h i a e f) = e"
  "screen_buffer_sz (SSD1306 w h i a e f) = unat w * ((unat h + 7) div 8) + 1"
  "screen_buffer (SSD1306 w h i a e f) = map f [0..<unat w * ((unat h + 7) div 8) + 1]"
  "reply (i2c_instance (SSD1306 w h i a e f)) = reply i"
proof -
  define d0 where "d0 =
       \<lparr>width = w, height = h,
        pagesize = (word_of_nat ((unat h + 7) div 8) :: uint8_t),
        address = a, external_vcc = e, i2c_instance = i,
        screen_buffer = map f [0..<unat w * ((unat h + 7) div 8) + 1],
        screen_buffer_sz = unat w * ((unat h + 7) div 8) + 1\<rparr>"
  have flds: "width d0 = w" "height d0 = h" "unat (pagesize d0) = (unat h + 7) div 8"
    "address d0 = a" "external_vcc d0 = e"
    "screen_buffer_sz d0 = unat w * ((unat h + 7) div 8) + 1"
    "screen_buffer d0 = map f [0..<unat w * ((unat h + 7) div 8) + 1]"
    "reply (i2c_instance d0) = reply i"
    by (simp_all add: d0_def pagesize_value)
  show "width (SSD1306 w h i a e f) = w"
    "height (SSD1306 w h i a e f) = h"
    "unat (pagesize (SSD1306 w h i a e f)) = (unat h + 7) div 8"
    "address (SSD1306 w h i a e f) = a"
    "external_vcc (SSD1306 w h i a e f) = e"
    "screen_buffer_sz (SSD1306 w h i a e f) = unat w * ((unat h + 7) div 8) + 1"
    "screen_buffer (SSD1306 w h i a e f) = map f [0..<unat w * ((unat h + 7) div 8) + 1]"
    "reply (i2c_instance (SSD1306 w h i a e f)) = reply i"
    unfolding SSD1306_def Let_def pagesize_value d0_def [symmetric]
    by (simp_all add: flds)
qed

lemma geometry_ok_SSD1306: "geometry_ok (SSD1306 w h i a e f)"
  by (simp add: geometry_ok_def SSD1306_fields)

subsection \<open>What render writes\<close>

lemma render_eq:
  "render d =
     (let ok0 = bus_ok d 0 [0x00, 0x22];
          ok1 = bus_ok d 1 [0x00, 0x00];
          k1 = (if \<not> ok0 then 1 else if pagesize d = 0 \<or> \<not> ok1 then 2 else 3);
          ok2 = bus_ok d k1 [0x00, 0x21];
          ok3 = bus_ok d (k1 + 1) [0x00, 0x00];
          k2 = (if \<not> ok2 then 1 else if width d = 0 \<or> \<not> ok3 then 2 else 3 :: nat);
          payload = take (screen_buffer_sz d) ((screen_buffer d)[0 := 0x40])
      in (after_writes d
            (take k1 [[0x00, 0x22], [0x00, 0x00], [0x00, pagesize d - 1]] @
             take k2 [[0x00, 0x21], [0x00, 0x00], [0x00, width d - 1]] @
             [payload]))
         \<lparr>screen_buffer := (screen_buffer d)[0 := 0x40]\<rparr>)"
proof -
  define k1 :: nat where
    "k1 = (if \<not> bus_ok d 0 [0x00, 0x22] then 1
           else if pagesize d = 0 \<or> \<not> bus_ok d 1 [0x00, 0x00] then 2 else 3)"
  define ws1 where "ws1 = take k1 [[0x00, 0x22], [0x00, 0x00], [0x00, pagesize d - 1]]"
  define d1 where "d1 = snd (write_cmd d PAGEADDR 0 (int16_t (uint (pagesize d) - 1)))"
  have d1: "d1 = after_writes d ws1"
    unfolding d1_def ws1_def k1_def by (simp add: snd_write_cmd_last_arg)
  have len1: "length ws1 = k1"
    unfolding ws1_def k1_def by simp
  define k2 :: nat where
    "k2 = (if \<not> bus_ok d k1 [0x00, 0x21] then 1
           else if width d = 0 \<or> \<not> bus_ok d (k1 + 1) [0x00, 0x00] then 2 else 3)"
  define ws2 where "ws2 = take k2 [[0x00, 0x21], [0x00, 0x00], [0x00, width d - 1]]"
  define d2 where "d2 = snd (write_cmd d1 COLUMNADDR 0 (int16_t (uint (width d1) - 1)))"
  have "d2 = after_writes d1 ws2"
    unfolding d2_def ws2_def k2_def by (simp add: snd_write_cmd_last_arg d1 len1)
  then have d2: "d2 = after_writes d (ws1 @ ws2)"
    by (simp add: d1)
  have "render d =
      snd (write_buffer (d2\<lparr>screen_buffer := (screen_buffer d2)[0 := 0x40]\<rparr>)
             ((screen_buffer d2)[0 := 0x40]) (screen_buffer_sz d2))"
    by (simp add: render_def Let_def d1_def d2_def)
  also have "\<dots> = (after_writes d (ws1 @ ws2 @ [take (screen_buffer_sz d) ((screen_buffer d)[0 := 0x40])]))
                      \<lparr>screen_buffer := (screen_buffer d)[0 := 0x40]\<rparr>"
    by (simp add: write_buffer_eq d2 after_writes_screen_buffer)
  finally show ?thesis
    by (simp add: Let_def ws1_def ws2_def k1_def k2_def)
qed

lemma bus_log_screen_buffer_update [simp]:
  "bus_log (d\<lparr>screen_buffer := b\<rparr>) = bus_log d"
  by (simp add: bus_log_def)

subsection \<open>Two concrete displays\<close>

lemma zero_buffer: "map (\<lambda>i. 0 :: uint8_t) [0..<n] = replicate n 0"
  by (simp add: map_replicate_const)

lemma l_display_fields:
  "width l_display = 128" "height l_display = 32" "pagesize l_display = 4"
  "address l_display = 0x3C" "screen_buffer_sz l_display = 513"
  "screen_buffer l_display = replicate 513 0"
  "geometry_ok l_display"
proof -
  have "unat (pagesize l_display) = unat (4 :: uint8_t)"
    by (simp add: l_display_def SSD1306_fields)
  then show "pagesize l_display = 4"
    by (simp only: word_unat_eq_iff)
  have "screen_buffer l_display = map (\<lambda>i. 0) [0..<513]"
    unfolding l_display_def SSD1306_fields by simp
  then show "screen_buffer l_display = replicate 513 0"
    by (simp only: zero_buffer)
qed (simp_all add: l_display_def SSD1306_fields geometry_ok_SSD1306)

section \<open>Command framing\<close>

text \<open>
  C5.  A command without argument is one bus write, with one argument two, with two
  arguments three; every write is the control byte 0x00 followed by the opcode or the
  argument byte.  The writes stop at the first one the bus refuses: after a refused write
  no further byte pair of the command is sent, and the result is true only when every
  write of the command was accepted.  (\<open>bus_ok d k\<close> is the outcome of the \<open>k\<close>-th write
  from the state \<open>d\<close> on.)
\<close>

theorem write_cmd_framing:
  fixes a b :: uint8_t
  shows
  "write_cmd d c (- 1) (- 1) = (bus_ok d 0 [0x00, opcode c], after_writes d [[0x00, opcode c]])
   \<and> write_cmd d c (uint a) (- 1) =
       (bus_ok d 0 [0x00, opcode c] \<and> bus_ok d 1 [0x00, a],
        after_writes d
          (if bus_ok d 0 [0x00, opcode c] then [[0x00, opcode c], [0x00, a]]
           else [[0x00, opcode c]]))
   \<and> write_cmd d c (uint a) (uint b) =
       (bus_ok d 0 [0x00, opcode c] \<and> bus_ok d 1 [0x00, a] \<and> bus_ok d 2 [0x00, b],
        after_writes d
          (if \<not> bus_ok d 0 [0x00, opcode c] then [[0x00, opcode c]]
           else if \<not> bus_ok d 1 [0x00, a] then [[0x00, opcode c], [0x00, a]]
           else [[0x00, opcode c], [0x00, a], [0x00, b]]))"
  by (simp add: write_cmd0 write_cmd1 write_cmd2 arg_byte)

theorem write_cmd_framing_witness:
  "write_cmd (SSD1306 128 64 dead_bus 0x3C False (\<lambda>i. 0)) SETCONTRAST
       (uint (0x7F :: uint8_t)) (uint (0x01 :: uint8_t))
     = (False, after_writes (SSD1306 128 64 dead_bus 0x3C False (\<lambda>i. 0)) [[0x00, 0x81]])"
proof -
  have "\<not> bus_ok (SSD1306 128 64 dead_bus 0x3C False (\<lambda>i. 0)) 0 [0x00, 0x81]"
    by (simp add: bus_ok_def SSD1306_fields dead_bus_def)
  then show ?thesis
    using write_cmd_framing [where d = "SSD1306 128 64 dead_bus 0x3C False (\<lambda>i. 0)"
        and c = SETCONTRAST and a = "0x7F" and b = "0x01"]
    by simp
qed

section \<open>The initialisation sequence\<close>

text \<open>
  C6.  On a bus that accepts the 25 byte pairs of the initialisation, and for a height other
  than 0, construction transmits exactly these writes, in this order, each to the device
  address: display-off; clock divider 0x80; multiplex ratio \<open>height - 1\<close>; display offset
  0; start line 0; charge pump (0x10 with external power, else 0x14); memory mode 0x00;
  segment remap; COM scan direction; COM pins (0x12 when the height is 64, else 0x02);
  contrast 0xFF; pre-charge period (0x22 with external power, else 0xF1); VCOM deselect
  level 0x40; display-all-on; normal display; display-on.
\<close>

theorem init_sequence:
  assumes "\<forall>k < 25. \<forall>b. reply p_i2c (length (sent p_i2c) + k) [0x00, b] > 0"
    and "p_height \<noteq> 0"
  shows "bus_log (SSD1306 p_width p_height p_i2c p_address p_ext_vcc fresh) =
     sent p_i2c @ map (Pair p_address)
       [[0x00, 0xAE],
        [0x00, 0xD5], [0x00, 0x80],
        [0x00, 0xA8], [0x00, p_height - 1],
        [0x00, 0xD3], [0x00, 0x00],
        [0x00, 0x40],
        [0x00, 0x8D], [0x00, if p_ext_vcc then 0x10 else 0x14],
        [0x00, 0x20], [0x00, 0x00],
        [0x00, 0xA1],
        [0x00, 0xC8],
        [0x00, 0xDA], [0x00, if p_height = 64 then 0x12 else 0x02],
        [0x00, 0x81], [0x00, 0xFF],
        [0x00, 0xD9], [0x00, if p_ext_vcc then 0x22 else 0xF1],
        [0x00, 0xDB], [0x00, 0x40],
        [0x00, 0xA4],
        [0x00, 0xA6],
        [0x00, 0xAF]]"
  by (subst SSD1306_accepted [OF assms]) (simp add: bus_log_record)

theorem init_sequence_witness:
  "bus_log (SSD1306 128 32 good_bus 0x3C False (\<lambda>i. 0)) =
     map (Pair 0x3C)
       [[0x00, 0xAE], [0x00, 0xD5], [0x00, 0x80], [0x00, 0xA8], [0x00, 0x1F],
        [0x00, 0xD3], [0x00, 0x00], [0x00, 0x40], [0x00, 0x8D], [0x00, 0x14],
        [0x00, 0x20], [0x00, 0x00], [0x00, 0xA1], [0x00, 0xC8], [0x00, 0xDA], [0x00, 0x02],
        [0x00, 0x81], [0x00, 0xFF], [0x00, 0xD9], [0x00, 0xF1], [0x00, 0xDB], [0x00, 0x40],
        [0x00, 0xA4], [0x00, 0xA6], [0x00, 0xAF]]"
proof -
  have acc: "\<forall>k < 25. \<forall>b. reply good_bus (length (sent good_bus) + k) [0x00, b] > 0"
    by (simp add: good_bus_def)
  have h: "(32 :: uint8_t) \<noteq> 0"
    by simp
  show ?thesis
    using init_sequence [OF acc h, of 128 "0x3C" False "\<lambda>i. 0"]
    by (simp add: good_bus_def)
qed

section \<open>Render and a failing bus\<close>

text \<open>
  C2, as the claim states it, fails.  On the display of the example program whose bus
  refuses exactly the first write of \<open>render\<close> (write number 25, after the 25 accepted
  writes of the initialisation), \<open>render\<close> goes on after the refused page-address opcode:
  it sends the whole column-address command and then the framebuffer payload.
\<close>

theorem render_failure_counterexample:
  "\<not> bus_ok (SSD1306 128 32 (flaky_bus 25) 0x3C False (\<lambda>i. 0)) 0 [0x00, 0x22] \<and>
   bus_log (render (SSD1306 128 32 (flaky_bus 25) 0x3C False (\<lambda>i. 0))) =
     bus_log (SSD1306 128 32 (flaky_bus 25) 0x3C False (\<lambda>i. 0)) @
       [(0x3C, [0x00, 0x22]),
        (0x3C, [0x00, 0x21]), (0x3C, [0x00, 0x00]), (0x3C, [0x00, 0x7F]),
        (0x3C, (replicate 513 0)[0 := 0x40])]"
proof -
  define d where "d = SSD1306 128 32 (flaky_bus 25) 0x3C False (\<lambda>i. 0)"
  have acc: "\<forall>k<25. \<forall>b. reply (flaky_bus 25) (length (sent (flaky_bus 25)) + k) [0x00, b] > 0"
    by (simp add: flaky_bus_def)
  have "bus_log d = map (Pair 0x3C)
       [[0x00, 0xAE], [0x00, 0xD5], [0x00, 0x80], [0x00, 0xA8], [0x00, 0x1F],
        [0x00, 0xD3], [0x00, 0x00], [0x00, 0x40], [0x00, 0x8D], [0x00, 0x14],
        [0x00, 0x20], [0x00, 0x00], [0x00, 0xA1], [0x00, 0xC8], [0x00, 0xDA], [0x00, 0x02],
        [0x00, 0x81], [0x00, 0xFF], [0x00, 0xD9], [0x00, 0xF1], [0x00, 0xDB], [0x00, 0x40],
        [0x00, 0xA4], [0x00, 0xA6], [0x00, 0xAF]]"
    unfolding d_def
    by (subst SSD1306_accepted [OF acc]) (simp_all add: bus_log_record flaky_bus_def)
  then have len: "length (bus_log d) = 25"
    by simp
  have rep: "reply (i2c_instance d) = (\<lambda>n bytes. if n = 25 then - 1 else int (length bytes))"
    by (simp add: d_def SSD1306_fields flaky_bus_def)
  have ok: "bus_ok d k bytes \<longleftrightarrow> k \<noteq> 0 \<and> bytes \<noteq> []" for k bytes
    by (auto simp add: bus_ok_def len rep)
  have "unat (pagesize d) = unat (4 :: uint8_t)"
    by (simp add: d_def SSD1306_fields)
  then have pg: "pagesize d = 4"
    by (simp only: word_unat_eq_iff)
  have "screen_buffer d = map (\<lambda>i. 0) [0..<513]"
    unfolding d_def SSD1306_fields by simp
  then have buf: "screen_buffer d = replicate 513 0"
    by (simp only: zero_buffer)
  have flds: "width d = 128" "address d = 0x3C" "screen_buffer_sz d = 513"
    by (simp_all add: d_def SSD1306_fields)
  have "\<not> bus_ok d 0 [0x00, 0x22]"
    by (simp add: ok)
  moreover have "bus_log (render d) =
        bus_log d @ [(0x3C, [0x00, 0x22]),
                     (0x3C, [0x00, 0x21]), (0x3C, [0x00, 0x00]), (0x3C, [0x00, 0x7F]),
                     (0x3C, (replicate 513 0)[0 := 0x40])]"
    unfolding render_eq Let_def by (simp add: ok flds pg buf)
  ultimately show ?thesis
    by (simp add: d_def)
qed

text \<open>
  C2, amended.  \<open>render\<close> returns nothing, so a transport failure is not reported to the
  caller, and it never stops early.  Whatever the bus answers, it writes the first \<open>k1\<close>
  of the byte pairs of the page-address command (0x22, 0, \<open>pagesize - 1\<close>), then the first
  \<open>k2\<close> of the byte pairs of the column-address command (0x21, 0, \<open>width - 1\<close>), then the
  framebuffer payload (0x40 and the pixel bytes) as one last write.  A refused write ends
  the command it belongs to and nothing else: \<open>k1\<close> is 1 when the opcode write is refused,
  2 when the opcode is accepted and the first argument refused (or when \<open>pagesize\<close> is 0,
  the last argument then being absent), and 3 otherwise; \<open>k2\<close> likewise for the column
  command, whose writes are numbered from \<open>k1\<close> on.  Apart from the log and the control byte
  of the buffer, the driver is unchanged.
\<close>

theorem render_goes_on_after_failure:
  "render d =
     (let k1 = (if \<not> bus_ok d 0 [0x00, 0x22] then 1
                else if pagesize d = 0 \<or> \<not> bus_ok d 1 [0x00, 0x00] then 2 else 3);
          k2 = (if \<not> bus_ok d k1 [0x00, 0x21] then 1
                else if width d = 0 \<or> \<not> bus_ok d (k1 + 1) [0x00, 0x00] then 2 else 3)
      in (after_writes d
            (take k1 [[0x00, 0x22], [0x00, 0x00], [0x00, pagesize d - 1]] @
             take k2 [[0x00, 0x21], [0x00, 0x00], [0x00, width d - 1]] @
             [take (screen_buffer_sz d) ((screen_buffer d)[0 := 0x40])]))
         \<lparr>screen_buffer := (screen_buffer d)[0 := 0x40]\<rparr>)"
  unfolding render_eq Let_def by (rule refl)

theorem render_goes_on_after_failure_witness:
  "bus_ok (SSD1306 128 64 (flaky_bus 26) 0x3C False (\<lambda>i. 0)) 0 [0x00, 0x22] \<and>
   \<not> bus_ok (SSD1306 128 64 (flaky_bus 26) 0x3C False (\<lambda>i. 0)) 1 [0x00, 0x00] \<and>
   bus_log (render (SSD1306 128 64 (flaky_bus 26) 0x3C False (\<lambda>i. 0))) =
     bus_log (SSD1306 128 64 (flaky_bus 26) 0x3C False (\<lambda>i. 0)) @
       [(0x3C, [0x00, 0x22]), (0x3C, [0x00, 0x00]),
        (0x3C, [0x00, 0x21]), (0x3C, [0x00, 0x00]), (0x3C, [0x00, 0x7F]),
        (0x3C, (replicate 1025 0)[0 := 0x40])]"
proof -
  define d where "d = SSD1306 128 64 (flaky_bus 26) 0x3C False (\<lambda>i. 0)"
  have acc: "\<forall>k<25. \<forall>b. reply (flaky_bus 26) (length (sent (flaky_bus 26)) + k) [0x00, b] > 0"
    by (simp add: flaky_bus_def)
  have "length (bus_log d) = 25"
    unfolding d_def
    by (subst SSD1306_accepted [OF acc]) (simp_all add: bus_log_record flaky_bus_def)
  moreover have "reply (i2c_instance d) = (\<lambda>n bytes. if n = 26 then - 1 else int (length bytes))"
    by (simp add: d_def SSD1306_fields flaky_bus_def)
  ultimately have ok: "bus_ok d k bytes \<longleftrightarrow> k \<noteq> 1 \<and> bytes \<noteq> []" for k bytes
    by (auto simp add: bus_ok_def)
  have "unat (pagesize d) = unat (8 :: uint8_t)"
    by (simp add: d_def SSD1306_fields)
  then have pg: "pagesize d = 8"
    by (simp only: word_unat_eq_iff)
  have "screen_buffer d = map (\<lambda>i. 0) [0..<1025]"
    unfolding d_def SSD1306_fields by simp
  then have buf: "screen_buffer d = replicate 1025 0"
    by (simp only: zero_buffer)
  have flds: "width d = 128" "address d = 0x3C" "screen_buffer_sz d = 1025"
    by (simp_all add: d_def SSD1306_fields)
  have "bus_log (render d) =
      bus_log d @ [(0x3C, [0x00, 0x22]), (0x3C, [0x00, 0x00]),
        (0x3C, [0x00, 0x21]), (0x3C, [0x00, 0x00]), (0x3C, [0x00, 0x7F]),
        (0x3C, (replicate 1025 0)[0 := 0x40])]"
    unfolding render_goes_on_after_failure [of d] Let_def
    by (simp add: ok flds pg buf)
  then show ?thesis
    by (simp add: ok d_def [symmetric])
qed

section \<open>Out-of-range coordinates\<close>

text \<open>
  C9.  For every coordinate pair with \<open>x \<ge> width\<close> or \<open>y \<ge> height\<close>, and whatever the
  driver holds, \<open>set_pixel\<close> and \<open>clear_pixel\<close> return the driver unchanged: the framebuffer
  and every other field are the same, and no fault is raised.
\<close>

theorem pixel_out_of_range_unchanged:
  "p_x \<ge> width d \<or> p_y \<ge> height d \<Longrightarrow>
     set_pixel d p_x p_y = d \<and> clear_pixel d p_x p_y = d"
  by (simp add: set_pixel_def clear_pixel_def)

theorem pixel_out_of_range_unchanged_witness:
  "(128 \<ge> width l_display \<or> 5 \<ge> height l_display) \<and>
   set_pixel l_display 128 5 = l_display \<and> clear_pixel l_display 128 5 = l_display"
proof -
  have h: "128 \<ge> width l_display \<or> 5 \<ge> height l_display"
    by (simp add: l_display_fields)
  show ?thesis
    using h pixel_out_of_range_unchanged [OF h] by simp
qed

section \<open>Pixels and the page layout\<close>

lemma page_of_row: "unat (drop_bit 3 (y :: uint8_t)) = unat y div 8"
  by (simp add: unat_drop_bit_eq drop_bit_eq_div unat_div)

lemma bit_of_row: "unat ((y :: uint8_t) AND 0x07) = unat y mod 8"
proof -
  have "(0x07 :: uint8_t) = mask 3"
    by (simp add: mask_eq_exp_minus_1)
  then have and7: "y AND 0x07 = take_bit 3 y"
    by (simp only: take_bit_eq_mask)
  have "unat (take_bit 3 y) = take_bit 3 (unat y)"
    by (rule unsigned_take_bit_eq)
  also have "\<dots> = unat y mod 8"
    by (simp add: take_bit_eq_mod)
  finally show ?thesis
    by (simp only: and7)
qed

lemma pixel_mask: "push_bit n (0x01 :: uint8_t) = 2 ^ n"
  by simp

lemma bit_set_mask:
  "bit ((b :: uint8_t) OR 2 ^ n) m \<longleftrightarrow> bit b m \<or> (m = n \<and> n < 8)"
  by (auto simp add: bit_simps)

lemma bit_clear_mask:
  "bit ((b :: uint8_t) AND NOT (2 ^ n)) m \<longleftrightarrow> bit b m \<and> m \<noteq> n"
  by (auto simp add: bit_simps dest: bit_imp_le_length)

lemma set_then_clear_mask:
  "((b :: uint8_t) OR 2 ^ n) AND NOT (2 ^ n) = b AND NOT (2 ^ n)"
  by (rule bit_eqI) (auto simp add: bit_simps)

lemma clear_then_set_mask:
  "((b :: uint8_t) AND NOT (2 ^ n)) OR 2 ^ n = b OR 2 ^ n"
  by (rule bit_eqI) (auto simp add: bit_simps)

lemma clear_mask_id: "\<not> bit (b :: uint8_t) n \<Longrightarrow> b AND NOT (2 ^ n) = b"
  by (rule bit_eqI) (auto simp add: bit_simps)

lemma set_mask_id: "bit (b :: uint8_t) n \<Longrightarrow> b OR 2 ^ n = b"
  by (rule bit_eqI) (auto simp add: bit_simps dest: bit_imp_le_length)

text \<open>With the geometry the constructor sets up, an in-range pixel has its byte inside the buffer.\<close>

lemma byte_index_in_buffer:
  assumes g: "geometry_ok d" and x: "p_x < width d" and y: "p_y < height d"
  shows "byte_index d p_x p_y < length (screen_buffer d)"
proof -
  have xw: "unat p_x < unat (width d)" and yh: "unat p_y < unat (height d)"
    using x y by (simp_all add: word_less_nat_alt)
  have "unat p_y div 8 < (unat (height d) + 7) div 8"
    using yh by linarith
  then have "Suc (unat p_y div 8) \<le> unat (pagesize d)"
    using g by (simp add: geometry_ok_def)
  then have "unat (width d) * Suc (unat p_y div 8) \<le> unat (width d) * unat (pagesize d)"
    by (rule mult_le_mono2)
  then have "unat (width d) * (unat p_y div 8) + unat p_x < unat (width d) * unat (pagesize d)"
    using xw by simp
  then show ?thesis
    using g by (simp add: geometry_ok_def byte_index_def)
qed

lemma set_pixel_in_range:
  assumes "p_x < width d" and "p_y < height d"
  shows "set_pixel d p_x p_y =
     d\<lparr>screen_buffer := (screen_buffer d)
          [byte_index d p_x p_y :=
             screen_buffer d ! byte_index d p_x p_y OR push_bit (unat p_y mod 8) 0x01]\<rparr>"
  using assms
  by (simp add: set_pixel_def Let_def byte_index_def page_of_row bit_of_row not_le [symmetric])

lemma clear_pixel_in_range:
  assumes "p_x < width d" and "p_y < height d"
  shows "clear_pixel d p_x p_y =
     d\<lparr>screen_buffer := (screen_buffer d)
          [byte_index d p_x p_y :=
             screen_buffer d ! byte_index d p_x p_y AND NOT (push_bit (unat p_y mod 8) 0x01)]\<rparr>"
  using assms
  by (simp add: clear_pixel_def Let_def byte_index_def page_of_row bit_of_row not_le [symmetric])

lemma byte_index_update [simp]: "byte_index (d\<lparr>screen_buffer := b\<rparr>) x y = byte_index d x y"
  by (simp add: byte_index_def)

lemma pixel_fields [simp]:
  "width (set_pixel d x y) = width d" "height (set_pixel d x y) = height d"
  "pagesize (set_pixel d x y) = pagesize d" "address (set_pixel d x y) = address d"
  "external_vcc (set_pixel d x y) = external_vcc d"
  "i2c_instance (set_pixel d x y) = i2c_instance d"
  "screen_buffer_sz (set_pixel d x y) = screen_buffer_sz d"
  "length (screen_buffer (set_pixel d x y)) = length (screen_buffer d)"
  "width (clear_pixel d x y) = width d" "height (clear_pixel d x y) = height d"
  "pagesize (clear_pixel d x y) = pagesize d" "address (clear_pixel d x y) = address d"
  "external_vcc (clear_pixel d x y) = external_vcc d"
  "i2c_instance (clear_pixel d x y) = i2c_instance d"
  "screen_buffer_sz (clear_pixel d x y) = screen_buffer_sz d"
  "length (screen_buffer (clear_pixel d x y)) = length (screen_buffer d)"
  by (simp_all add: set_pixel_def clear_pixel_def Let_def)

lemma geometry_ok_pixel [simp]:
  "geometry_ok (set_pixel d x y) = geometry_ok d"
  "geometry_ok (clear_pixel d x y) = geometry_ok d"
  by (simp_all add: geometry_ok_def)

lemma byte_index_pixel [simp]:
  "byte_index (set_pixel d x y) x' y' = byte_index d x' y'"
  "byte_index (clear_pixel d x y) x' y' = byte_index d x' y'"
  by (simp_all add: byte_index_def)

text \<open>The bits of the buffer after one pixel operation.\<close>

lemma set_pixel_bits:
  assumes g: "geometry_ok d" and x: "p_x < width d" and y: "p_y < height d"
    and i: "i < length (screen_buffer d)"
  shows "bit (screen_buffer (set_pixel d p_x p_y) ! i) b \<longleftrightarrow>
           bit (screen_buffer d ! i) b \<or> (i = byte_index d p_x p_y \<and> b = unat p_y mod 8)"
  using i byte_index_in_buffer [OF g x y]
  by (auto simp add: set_pixel_in_range [OF x y] nth_list_update bit_set_mask)

lemma clear_pixel_bits:
  assumes g: "geometry_ok d" and x: "p_x < width d" and y: "p_y < height d"
    and i: "i < length (screen_buffer d)"
  shows "bit (screen_buffer (clear_pixel d p_x p_y) ! i) b \<longleftrightarrow>
           bit (screen_buffer d ! i) b \<and> \<not> (i = byte_index d p_x p_y \<and> b = unat p_y mod 8)"
  using i byte_index_in_buffer [OF g x y]
  by (auto simp add: clear_pixel_in_range [OF x y] nth_list_update bit_clear_mask)

lemma clear_after_set:
  assumes g: "geometry_ok d" and x: "p_x < width d" and y: "p_y < height d"
  shows "clear_pixel (set_pixel d p_x p_y) p_x p_y = clear_pixel d p_x p_y"
proof -
  have x': "p_x < width (set_pixel d p_x p_y)" and y': "p_y < height (set_pixel d p_x p_y)"
    using x y by simp_all
  show ?thesis
    unfolding clear_pixel_in_range [OF x' y']
    using byte_index_in_buffer [OF g x y]
    by (simp add: set_pixel_in_range [OF x y] clear_pixel_in_range [OF x y] set_then_clear_mask)
qed

lemma set_after_clear:
  assumes g: "geometry_ok d" and x: "p_x < width d" and y: "p_y < height d"
  shows "set_pixel (clear_pixel d p_x p_y) p_x p_y = set_pixel d p_x p_y"
proof -
  have x': "p_x < width (clear_pixel d p_x p_y)" and y': "p_y < height (clear_pixel d p_x p_y)"
    using x y by simp_all
  show ?thesis
    unfolding set_pixel_in_range [OF x' y']
    using byte_index_in_buffer [OF g x y]
    by (simp add: set_pixel_in_range [OF x y] clear_pixel_in_range [OF x y] clear_then_set_mask)
qed

lemma clear_pixel_idle:
  assumes x: "p_x < width d" and y: "p_y < height d" and off: "\<not> pixel_at d p_x p_y"
  shows "clear_pixel d p_x p_y = d"
  using off by (simp add: clear_pixel_in_range [OF x y] pixel_at_def clear_mask_id)

lemma set_pixel_idle:
  assumes x: "p_x < width d" and y: "p_y < height d" and on: "pixel_at d p_x p_y"
  shows "set_pixel d p_x p_y = d"
  using on by (simp add: set_pixel_in_range [OF x y] pixel_at_def set_mask_id)

lemma pixel_at_set_same:
  assumes "geometry_ok d" and "p_x < width d" and "p_y < height d"
  shows "pixel_at (set_pixel d p_x p_y) p_x p_y"
  using set_pixel_bits [OF assms byte_index_in_buffer [OF assms]]
  by (simp add: pixel_at_def)

lemma pixel_at_clear_same:
  assumes "geometry_ok d" and "p_x < width d" and "p_y < height d"
  shows "\<not> pixel_at (clear_pixel d p_x p_y) p_x p_y"
  using clear_pixel_bits [OF assms byte_index_in_buffer [OF assms]]
  by (simp add: pixel_at_def)

section \<open>Setting and clearing a pixel\<close>

text \<open>
  C10, as the claim states it, fails: \<open>set_pixel\<close> followed by \<open>clear_pixel\<close> leaves the pixel
  off, so it does not restore a framebuffer in which the pixel was on.  On the display
  of the example program with pixel (0, 0) lit, the two calls give a different buffer.
\<close>

theorem set_clear_restore_counterexample:
  "(0 :: uint8_t) < width (set_pixel l_display 0 0) \<and> (0 :: uint8_t) < height (set_pixel l_display 0 0) \<and>
   screen_buffer (clear_pixel (set_pixel (set_pixel l_display 0 0) 0 0) 0 0)
     \<noteq> screen_buffer (set_pixel l_display 0 0)"
proof -
  have x: "(0 :: uint8_t) < width l_display" and y: "(0 :: uint8_t) < height l_display"
    by (simp_all add: l_display_fields)
  have g: "geometry_ok l_display"
    by (rule l_display_fields)
  have on: "pixel_at (set_pixel l_display 0 0) 0 0"
    by (rule pixel_at_set_same [OF g x y])
  have "clear_pixel (set_pixel (set_pixel l_display 0 0) 0 0) 0 0 = clear_pixel l_display 0 0"
    using g x y by (simp add: clear_after_set)
  moreover have "\<not> pixel_at (clear_pixel l_display 0 0) 0 0"
    by (rule pixel_at_clear_same [OF g x y])
  ultimately have "screen_buffer (clear_pixel (set_pixel (set_pixel l_display 0 0) 0 0) 0 0)
      \<noteq> screen_buffer (set_pixel l_display 0 0)"
    using on by (auto simp add: pixel_at_def)
  then show ?thesis
    using x y by simp
qed

text \<open>
  C10, amended.  For a driver with the constructor's geometry and an in-range \<open>(x, y)\<close>:
  \<open>set_pixel\<close> followed by \<open>clear_pixel\<close> is \<open>clear_pixel\<close> alone, and \<open>clear_pixel\<close>
  followed by \<open>set_pixel\<close> is \<open>set_pixel\<close> alone; so the first pair restores the driver
  exactly when the pixel was off before, and the second exactly when it was on.  Each of
  the two operations leaves every bit of the buffer as it was except bit \<open>y mod 8\<close> of the
  byte at column \<open>x\<close>, page \<open>y div 8\<close>, which \<open>set_pixel\<close> turns on and \<open>clear_pixel\<close>
  turns off; the length of the buffer does not change.
\<close>

theorem set_clear_pixel:
  assumes "geometry_ok d" and "p_x < width d" and "p_y < height d"
  shows "clear_pixel (set_pixel d p_x p_y) p_x p_y = clear_pixel d p_x p_y
    \<and> set_pixel (clear_pixel d p_x p_y) p_x p_y = set_pixel d p_x p_y
    \<and> (\<not> pixel_at d p_x p_y \<longrightarrow> clear_pixel (set_pixel d p_x p_y) p_x p_y = d)
    \<and> (pixel_at d p_x p_y \<longrightarrow> set_pixel (clear_pixel d p_x p_y) p_x p_y = d)
    \<and> length (screen_buffer (set_pixel d p_x p_y)) = length (screen_buffer d)
    \<and> length (screen_buffer (clear_pixel d p_x p_y)) = length (screen_buffer d)
    \<and> (\<forall>i < length (screen_buffer d). \<forall>b.
          (bit (screen_buffer (set_pixel d p_x p_y) ! i) b \<longleftrightarrow>
             bit (screen_buffer d ! i) b \<or> (i = byte_index d p_x p_y \<and> b = unat p_y mod 8))
        \<and> (bit (screen_buffer (clear_pixel d p_x p_y) ! i) b \<longleftrightarrow>
             bit (screen_buffer d ! i) b \<and> \<not> (i = byte_index d p_x p_y \<and> b = unat p_y mod 8)))"
proof -
  note a = assms
  have "clear_pixel (set_pixel d p_x p_y) p_x p_y = clear_pixel d p_x p_y"
    by (rule clear_after_set [OF a])
  moreover have "set_pixel (clear_pixel d p_x p_y) p_x p_y = set_pixel d p_x p_y"
    by (rule set_after_clear [OF a])
  moreover have "\<not> pixel_at d p_x p_y \<longrightarrow> clear_pixel (set_pixel d p_x p_y) p_x p_y = d"
    by (simp add: clear_after_set [OF a] clear_pixel_idle [OF a(2,3)])
  moreover have "pixel_at d p_x p_y \<longrightarrow> set_pixel (clear_pixel d p_x p_y) p_x p_y = d"
    by (simp add: set_after_clear [OF a] set_pixel_idle [OF a(2,3)])
  moreover have "\<forall>i < length (screen_buffer d). \<forall>b.
          (bit (screen_buffer (set_pixel d p_x p_y) ! i) b \<longleftrightarrow>
             bit (screen_buffer d ! i) b \<or> (i = byte_index d p_x p_y \<and> b = unat p_y mod 8))
        \<and> (bit (screen_buffer (clear_pixel d p_x p_y) ! i) b \<longleftrightarrow>
             bit (screen_buffer d ! i) b \<and> \<not> (i = byte_index d p_x p_y \<and> b = unat p_y mod 8))"
    using set_pixel_bits [OF a] clear_pixel_bits [OF a] by blast
  ultimately show ?thesis
    by simp
qed

theorem set_clear_pixel_witness:
  "geometry_ok l_display \<and> (5 :: uint8_t) < width l_display \<and> (9 :: uint8_t) < height l_display
   \<and> \<not> pixel_at l_display 5 9
   \<and> clear_pixel (set_pixel l_display 5 9) 5 9 = l_display
   \<and> byte_index l_display 5 9 = 134
   \<and> bit (screen_buffer (set_pixel l_display 5 9) ! 134) 1"
proof -
  have g: "geometry_ok l_display" and x: "(5 :: uint8_t) < width l_display"
    and y: "(9 :: uint8_t) < height l_display"
    by (simp_all add: l_display_fields)
  have off: "\<not> pixel_at l_display 5 9"
    by (simp add: pixel_at_def byte_index_def l_display_fields)
  have idx: "byte_index l_display 5 9 = 134"
    by (simp add: byte_index_def l_display_fields)
  have len: "134 < length (screen_buffer l_display)"
    by (simp add: l_display_fields)
  note t = set_clear_pixel [OF g x y]
  from t off have "clear_pixel (set_pixel l_display 5 9) 5 9 = l_display"
    by blast
  moreover from t idx len have "bit (screen_buffer (set_pixel l_display 5 9) ! 134) 1"
    by simp
  ultimately show ?thesis
    using g x y off idx by simp
qed

section \<open>Reading pixels back\<close>

lemma set_pixel_out_of_range: "p_x \<ge> width d \<or> p_y \<ge> height d \<Longrightarrow> set_pixel d p_x p_y = d"
  by (simp add: set_pixel_def)

lemma clear_pixel_out_of_range: "p_x \<ge> width d \<or> p_y \<ge> height d \<Longrightarrow> clear_pixel d p_x p_y = d"
  by (simp add: clear_pixel_def)

text \<open>Two in-range pixels that share byte and bit are the same pixel.\<close>

lemma pixel_position_inj:
  assumes x: "x < width d" and x': "x' < width d"
    and i: "byte_index d x y = byte_index d x' y'" and b: "unat y mod 8 = unat y' mod 8"
  shows "x = x' \<and> y = y'"
proof -
  define w where "w = unat (width d)"
  have xw: "unat x < w" and xw': "unat x' < w"
    using x x' by (simp_all add: w_def word_less_nat_alt)
  have eq: "w * (unat y div 8) + unat x = w * (unat y' div 8) + unat x'"
    using i by (simp add: byte_index_def w_def)
  have "unat y div 8 = (w * (unat y div 8) + unat x) div w"
    using xw by simp
  also have "\<dots> = (w * (unat y' div 8) + unat x') div w"
    by (simp only: eq)
  also have "\<dots> = unat y' div 8"
    using xw' by simp
  finally have pg: "unat y div 8 = unat y' div 8" .
  have "w * (unat y' div 8) + unat x = w * (unat y' div 8) + unat x'"
    using eq by (simp only: pg)
  then have ux: "unat x = unat x'"
    by (rule add_left_imp_eq)
  have "unat y = 8 * (unat y div 8) + unat y mod 8"
    by simp
  also have "\<dots> = 8 * (unat y' div 8) + unat y' mod 8"
    by (simp only: pg b)
  also have "\<dots> = unat y'"
    by simp
  finally have "unat y = unat y'" .
  with ux show ?thesis
    by (simp only: word_unat_eq_iff)
qed

lemma pixel_at_set_pixel:
  assumes g: "geometry_ok d" and x': "x' < width d" and y': "y' < height d"
  shows "pixel_at (set_pixel d x y) x' y' \<longleftrightarrow> pixel_at d x' y' \<or> (x = x' \<and> y = y')"
proof (cases "x < width d \<and> y < height d")
  case True
  then have x: "x < width d" and y: "y < height d"
    by simp_all
  have "pixel_at (set_pixel d x y) x' y' \<longleftrightarrow>
      pixel_at d x' y' \<or> (byte_index d x' y' = byte_index d x y \<and> unat y' mod 8 = unat y mod 8)"
    unfolding pixel_at_def byte_index_pixel
    by (rule set_pixel_bits [OF g x y byte_index_in_buffer [OF g x' y']])
  moreover have "byte_index d x' y' = byte_index d x y \<and> unat y' mod 8 = unat y mod 8
      \<longleftrightarrow> x = x' \<and> y = y'"
    using pixel_position_inj [OF x x', of y y'] by fastforce
  ultimately show ?thesis
    by simp
next
  case False
  then have "set_pixel d x y = d"
    by (auto simp add: set_pixel_out_of_range not_less)
  moreover have "\<not> (x = x' \<and> y = y')"
    using False x' y' by auto
  ultimately show ?thesis
    by auto
qed

lemma pixel_at_clear_pixel:
  assumes g: "geometry_ok d" and x': "x' < width d" and y': "y' < height d"
  shows "pixel_at (clear_pixel d x y) x' y' \<longleftrightarrow> pixel_at d x' y' \<and> \<not> (x = x' \<and> y = y')"
proof (cases "x < width d \<and> y < height d")
  case True
  then have x: "x < width d" and y: "y < height d"
    by simp_all
  have "pixel_at (clear_pixel d x y) x' y' \<longleftrightarrow>
      pixel_at d x' y' \<and> \<not> (byte_index d x' y' = byte_index d x y \<and> unat y' mod 8 = unat y mod 8)"
    unfolding pixel_at_def byte_index_pixel
    by (rule clear_pixel_bits [OF g x y byte_index_in_buffer [OF g x' y']])
  moreover have "byte_index d x' y' = byte_index d x y \<and> unat y' mod 8 = unat y mod 8
      \<longleftrightarrow> x = x' \<and> y = y'"
    using pixel_position_inj [OF x x', of y y'] by fastforce
  ultimately show ?thesis
    by simp
next
  case False
  then have "clear_pixel d x y = d"
    by (auto simp add: clear_pixel_out_of_range not_less)
  moreover have "\<not> (x = x' \<and> y = y')"
    using False x' y' by auto
  ultimately show ?thesis
    by auto
qed

section \<open>Sequences of pixel operations\<close>

lemma plot_all_Nil [simp]: "plot_all s [] d = d"
  by (simp add: plot_all_def)

lemma plot_all_Cons: "plot_all s (p # ps) d = plot_all s ps (plot s p d)"
  by (simp add: plot_all_def)

lemma plot_all_append: "plot_all s (ps @ qs) d = plot_all s qs (plot_all s ps d)"
  by (simp add: plot_all_def)

lemma plot_fields [simp]:
  "width (plot s p d) = width d" "height (plot s p d) = height d"
  "pagesize (plot s p d) = pagesize d" "address (plot s p d) = address d"
  "external_vcc (plot s p d) = external_vcc d" "i2c_instance (plot s p d) = i2c_instance d"
  "screen_buffer_sz (plot s p d) = screen_buffer_sz d"
  "length (screen_buffer (plot s p d)) = length (screen_buffer d)"
  "geometry_ok (plot s p d) = geometry_ok d"
  by (simp_all add: plot_def)

lemma plot_all_fields [simp]:
  "width (plot_all s ps d) = width d" "height (plot_all s ps d) = height d"
  "pagesize (plot_all s ps d) = pagesize d" "address (plot_all s ps d) = address d"
  "external_vcc (plot_all s ps d) = external_vcc d"
  "i2c_instance (plot_all s ps d) = i2c_instance d"
  "screen_buffer_sz (plot_all s ps d) = screen_buffer_sz d"
  "length (screen_buffer (plot_all s ps d)) = length (screen_buffer d)"
  "geometry_ok (plot_all s ps d) = geometry_ok d"
  by (induction ps arbitrary: d; simp add: plot_all_Cons)+

text \<open>Which pixels are on after a sequence of operations.\<close>

lemma pixel_at_plot:
  assumes "geometry_ok d" and "x < width d" and "y < height d"
  shows "pixel_at (plot s p d) x y \<longleftrightarrow> (if s then pixel_at d x y \<or> p = (x, y) else pixel_at d x y \<and> p \<noteq> (x, y))"
  using pixel_at_set_pixel [OF assms, of "fst p" "snd p"] pixel_at_clear_pixel [OF assms, of "fst p" "snd p"]
  by (cases p) (simp add: plot_def)

lemma pixel_at_plot_all:
  assumes "geometry_ok d" and "x < width d" and "y < height d"
  shows "pixel_at (plot_all s ps d) x y \<longleftrightarrow>
           (if s then pixel_at d x y \<or> (x, y) \<in> set ps else pixel_at d x y \<and> (x, y) \<notin> set ps)"
  using assms
proof (induction ps arbitrary: d)
  case Nil
  then show ?case by simp
next
  case (Cons p ps)
  have "pixel_at (plot_all s ps (plot s p d)) x y \<longleftrightarrow>
      (if s then pixel_at (plot s p d) x y \<or> (x, y) \<in> set ps
       else pixel_at (plot s p d) x y \<and> (x, y) \<notin> set ps)"
    using Cons.prems by (intro Cons.IH) simp_all
  then show ?case
    using pixel_at_plot [OF Cons.prems, of s p] by (auto simp add: plot_all_Cons)
qed

section \<open>Glyph lookup\<close>

lemma length_l_font: "length l_font = 96"
  by (simp add: l_font_def)

lemma undef_row: "l_font ! 95 = [0b0000110, 0b0001001, 0b1010001, 0b0000001, 0b0000010]"
  by (simp add: l_font_def)

lemma glyph_A: "l_font ! 33 = [0b0011111, 0b0100100, 0b1000100, 0b0100100, 0b0011111]"
  by (simp add: l_font_def)

lemma font_column_beyond: "font_column 0x7F l_x = Inl (FontRowOutOfRange 127)"
  by (simp add: font_column_def length_l_font)

lemma draw_char_unprintable:
  assumes "p_char < 0x20 \<or> p_char > 0x7E"
  shows "draw_char d p_x p_y p_char p_set = Inl (FontRowOutOfRange 127)"
  using assms by (auto simp add: draw_char_def font_column_beyond)

text \<open>A row inside the table: the two loops plot the cells of the glyph, offset to \<open>(p_x, p_y)\<close>.\<close>

lemma draw_char_rows_plot:
  assumes "unat l_char < 96"
  shows "draw_char_rows p_x p_y l_char p_set l_x ys d =
     Inr (plot_all p_set
            (map (\<lambda>l_y. (p_x + l_x, p_y + l_y))
               (filter (\<lambda>l_y. push_bit (unat (6 - l_y)) 0x01 AND (l_font ! unat l_char ! unat l_x) \<noteq> 0) ys))
            d)"
proof (induction ys arbitrary: d)
  case Nil
  show ?case by simp
next
  case (Cons l_y ys)
  show ?case
    using assms by (simp add: Cons.IH font_column_def length_l_font plot_all_Cons plot_def)
qed

lemma draw_char_cols_plot:
  assumes "unat l_char < 96"
  shows "draw_char_cols p_x p_y l_char p_set xs d =
     Inr (plot_all p_set
            (concat (map (\<lambda>l_x. map (\<lambda>l_y. (p_x + l_x, p_y + l_y))
               (filter (\<lambda>l_y. push_bit (unat (6 - l_y)) 0x01 AND (l_font ! unat l_char ! unat l_x) \<noteq> 0)
                  [0, 1, 2, 3, 4, 5, 6])) xs))
            d)"
proof (induction xs arbitrary: d)
  case Nil
  show ?case by simp
next
  case (Cons l_x xs)
  show ?case
    by (simp only: draw_char_cols.simps draw_char_rows_plot [OF assms] sum.case Cons.IH
          list.map concat.simps plot_all_append)
qed

lemma draw_char_printable:
  assumes "0x20 \<le> p_char" and "p_char \<le> 0x7E"
  shows "draw_char d p_x p_y p_char p_set =
     Inr (plot_all p_set (map (\<lambda>(l_x, l_y). (p_x + l_x, p_y + l_y)) (glyph_cells (p_char - 0x20))) d)"
proof -
  have "unat (p_char - 0x20) = unat p_char - 32"
    using assms(1) by (simp add: unat_sub)
  moreover have "unat p_char \<le> 126"
    using assms(2) by (simp add: word_le_nat_alt)
  ultimately have row: "unat (p_char - 0x20) < 96"
    by simp
  have sel: "\<not> (p_char < 0x20 \<or> p_char > 0x7E)"
    using assms by (simp add: not_less)
  show ?thesis
    unfolding draw_char_def Let_def if_not_P [OF sel] draw_char_cols_plot [OF row] glyph_cells_def
    by (simp add: map_concat comp_def)
qed

section \<open>The undefined glyph\<close>

text \<open>
  C1.  The claim holds for the table and the intent of the code, but not for what the code
  does.  The font table has 96 rows, the last one (index 95) being the glyph for an undefined
  character.  For every character code below 0x20 or above 0x7E \<open>draw_char\<close> selects row
  0x7F = 127, which is beyond the table: the first glyph column it reads is outside the
  array, whatever the driver, the position and the \<open>set\<close> flag, and no pixel of the
  reserved glyph is drawn.
\<close>

theorem draw_char_unprintable_reads_outside_font:
  "p_char < 0x20 \<or> p_char > 0x7E \<Longrightarrow>
     draw_char d p_x p_y p_char p_set = Inl (FontRowOutOfRange 127)
     \<and> length l_font = 96
     \<and> l_font ! 95 = [0b0000110, 0b0001001, 0b1010001, 0b0000001, 0b0000010]"
  by (simp add: draw_char_unprintable length_l_font undef_row)

theorem draw_char_unprintable_reads_outside_font_witness:
  "((0x01 :: uint8_t) < 0x20 \<or> (0x01 :: uint8_t) > 0x7E)
   \<and> draw_char l_display 10 10 0x01 True = Inl (FontRowOutOfRange 127)
   \<and> length l_font = 96"
proof -
  have h: "(0x01 :: uint8_t) < 0x20 \<or> (0x01 :: uint8_t) > 0x7E"
    by simp
  show ?thesis
    using h draw_char_unprintable_reads_outside_font [OF h, of l_display 10 10 True] by simp
qed

section \<open>Text at the right edge\<close>

lemma c_str_A: "c_str ''A'' = [0x41]"
  by (simp add: c_str_def)

lemma glyph_cells_A:
  "glyph_cells 33 =
     [(0, 2), (0, 3), (0, 4), (0, 5), (0, 6), (1, 1), (1, 4), (2, 0), (2, 4),
      (3, 1), (3, 4), (4, 2), (4, 3), (4, 4), (4, 5), (4, 6)]"
  by (simp add: glyph_cells_def glyph_A)

lemma wrapped_columns: "(256 :: uint8_t) = 0" "(257 :: uint8_t) = 1" "(258 :: uint8_t) = 2"
  by simp_all

lemma draw_text_A_at_254:
  "draw_text d 254 0 (c_str ''A'') p_set =
     Inr (plot_all p_set
            [(254, 2), (254, 3), (254, 4), (254, 5), (254, 6), (255, 1), (255, 4),
             (0, 0), (0, 4), (1, 1), (1, 4), (2, 2), (2, 3), (2, 4), (2, 5), (2, 6)] d)"
proof -
  have "draw_char d 254 0 0x41 p_set =
     Inr (plot_all p_set
            [(254, 2), (254, 3), (254, 4), (254, 5), (254, 6), (255, 1), (255, 4),
             (0, 0), (0, 4), (1, 1), (1, 4), (2, 2), (2, 3), (2, 4), (2, 5), (2, 6)] d)"
    by (subst draw_char_printable) (simp_all add: glyph_cells_A wrapped_columns)
  then show ?thesis
    by (simp add: draw_text_def strlen_def c_str_A draw_text_loop.simps cong: sum.case_cong_weak)
qed

lemma l_display_dark:
  assumes "x < width l_display" and "y < height l_display"
  shows "\<not> pixel_at l_display x y"
proof -
  have "byte_index l_display x y < 513"
    using byte_index_in_buffer [OF l_display_fields(7) assms] by (simp add: l_display_fields)
  then show ?thesis
    by (simp add: pixel_at_def l_display_fields)
qed

section \<open>Text does not stop at the edge\<close>

text \<open>
  C3.  The claim is what the comment of \<open>draw_text\<close> promises (text does not wrap), but the
  coordinates handed to \<open>draw_char\<close> and to the pixel routines are \<open>uint8_t\<close>, so they are
  reduced modulo 256 before the bounds check sees them.  On the dark 128 by 32 display of
  the example program, \<open>draw_text(254, 0, "A")\<close> plots the sixteen cells of the glyph at the
  columns 254, 255, 0, 1 and 2: the cells at 254 and 255 are clipped, the other nine light
  pixels at the left edge, among them (0, 0), (1, 1) and (2, 6).
\<close>

theorem draw_text_wraps_modulo_256:
  "draw_text l_display 254 0 (c_str ''A'') True =
     Inr (plot_all True
            [(254, 2), (254, 3), (254, 4), (254, 5), (254, 6), (255, 1), (255, 4),
             (0, 0), (0, 4), (1, 1), (1, 4), (2, 2), (2, 3), (2, 4), (2, 5), (2, 6)] l_display)
   \<and> \<not> pixel_at l_display 0 0 \<and> \<not> pixel_at l_display 1 1 \<and> \<not> pixel_at l_display 2 6
   \<and> pixel_at (plot_all True
            [(254, 2), (254, 3), (254, 4), (254, 5), (254, 6), (255, 1), (255, 4),
             (0, 0), (0, 4), (1, 1), (1, 4), (2, 2), (2, 3), (2, 4), (2, 5), (2, 6)] l_display) 0 0
   \<and> pixel_at (plot_all True
            [(254, 2), (254, 3), (254, 4), (254, 5), (254, 6), (255, 1), (255, 4),
             (0, 0), (0, 4), (1, 1), (1, 4), (2, 2), (2, 3), (2, 4), (2, 5), (2, 6)] l_display) 1 1
   \<and> pixel_at (plot_all True
            [(254, 2), (254, 3), (254, 4), (254, 5), (254, 6), (255, 1), (255, 4),
             (0, 0), (0, 4), (1, 1), (1, 4), (2, 2), (2, 3), (2, 4), (2, 5), (2, 6)] l_display) 2 6"
proof -
  have g: "geometry_ok l_display"
    by (rule l_display_fields)
  have r: "(0 :: uint8_t) < width l_display" "(0 :: uint8_t) < height l_display"
    "(1 :: uint8_t) < width l_display" "(1 :: uint8_t) < height l_display"
    "(2 :: uint8_t) < width l_display" "(6 :: uint8_t) < height l_display"
    by (simp_all add: l_display_fields)
  show ?thesis
    by (simp add: draw_text_A_at_254 l_display_dark r
          pixel_at_plot_all [OF g r(1,2)] pixel_at_plot_all [OF g r(3,4)] pixel_at_plot_all [OF g r(5,6)])
qed

section \<open>The line loop\<close>

text \<open>
  One turn of the loop, with the 16-bit conversions resolved: as long as the error term
  and the deltas are small (they never exceed 510 in absolute value), every value stored
  in an \<open>int16_t\<close> is stored unchanged.
\<close>

lemma draw_line_loop_step:
  assumes "- 512 \<le> l_err" "l_err \<le> 512" "0 \<le> l_dx" "l_dx \<le> 255" "- 255 \<le> l_dy" "l_dy \<le> 0"
  shows "draw_line_loop xe ye p_set l_dx l_dy l_sx l_sy l_err l_x l_y d =
     (if l_x = xe \<and> l_y = ye then Some (plot p_set (l_x, l_y) d)
      else draw_line_loop xe ye p_set l_dx l_dy l_sx l_sy
             (l_err + (if 2 * l_err \<ge> l_dy then l_dy else 0) + (if 2 * l_err \<le> l_dx then l_dx else 0))
             (if 2 * l_err \<ge> l_dy then l_x + word_of_int l_sx else l_x)
             (if 2 * l_err \<le> l_dx then l_y + word_of_int l_sy else l_y)
             (plot p_set (l_x, l_y) d))"
proof -
  have e2: "int16_t (l_err * 2) = 2 * l_err"
    using assms by (simp add: int16_t_id)
  have e1: "int16_t (l_err + l_dy) = l_err + l_dy"
    using assms by (simp add: int16_t_id)
  have e3: "int16_t (l_err + l_dy + l_dx) = l_err + l_dy + l_dx" "int16_t (l_err + l_dx) = l_err + l_dx"
    using assms by (simp_all add: int16_t_id)
  show ?thesis
    by (subst draw_line_loop.simps) (simp add: Let_def e1 e2 e3 plot_def)
qed

subsection \<open>Counting from one coordinate to another\<close>

lemma word_run_same: "word_run a a = [a]"
  by (simp add: word_run_def)

lemma unat_succ_below:
  fixes a b :: uint8_t
  assumes "a < b"
  shows "unat (a + 1) = Suc (unat a)"
proof -
  have "unat a < unat b"
    using assms by (simp add: word_less_nat_alt)
  then have "unat a + 1 < 256"
    using unat8_lt_256 [of b] by simp
  then show ?thesis
    by (simp add: unat_word_ariths)
qed

lemma unat_pred_above:
  fixes a b :: uint8_t
  assumes "b < a"
  shows "unat (a - 1) = unat a - 1"
proof -
  have "a \<noteq> 0"
    using assms by (auto simp add: word_less_nat_alt)
  then show ?thesis
    by (simp add: unat_minus_one)
qed

lemma word_run_up:
  assumes "a < b"
  shows "word_run a b = a # word_run (a + 1) b"
proof -
  have lt: "unat a < unat b"
    using assms by (simp add: word_less_nat_alt)
  have s: "unat (a + 1) = Suc (unat a)"
    by (rule unat_succ_below [OF assms])
  have le: "a + 1 \<le> b"
    using lt s by (simp add: word_le_nat_alt)
  have "a \<le> b"
    using assms by (rule less_imp_le)
  then have "word_run a b = map word_of_nat [unat a..<Suc (unat b)]"
    by (simp only: word_run_def if_True)
  also have "\<dots> = a # map word_of_nat [Suc (unat a)..<Suc (unat b)]"
    using lt by (simp add: upt_conv_Cons)
  also have "map word_of_nat [Suc (unat a)..<Suc (unat b)] = word_run (a + 1) b"
    using le by (simp add: word_run_def s)
  finally show ?thesis .
qed

lemma word_run_down:
  assumes "b < a"
  shows "word_run a b = a # word_run (a - 1) b"
proof -
  have lt: "unat b < unat a"
    using assms by (simp add: word_less_nat_alt)
  have p: "unat (a - 1) = unat a - 1"
    by (rule unat_pred_above [OF assms])
  have "\<not> a \<le> b"
    using assms by (simp add: not_le)
  then have "word_run a b = rev (map word_of_nat [unat b..<Suc (unat a)])"
    by (simp only: word_run_def if_False)
  also have "\<dots> = a # rev (map word_of_nat [unat b..<unat a])"
    using lt by simp
  also have "rev (map word_of_nat [unat b..<unat a]) = word_run (a - 1) b"
  proof (cases "a - 1 \<le> b")
    case True
    then have "unat a - 1 = unat b"
      using lt p by (simp add: word_le_nat_alt)
    then have "[unat b..<unat a] = [unat b]" "a - 1 = b"
      using lt p by (simp_all add: upt_conv_Cons word_unat_eq_iff)
    then show ?thesis
      by (simp add: word_run_def)
  next
    case False
    then show ?thesis
      using lt by (simp add: word_run_def p)
  qed
  finally show ?thesis .
qed

lemma set_word_run: "set (word_run a b) = {c. min a b \<le> c \<and> c \<le> max a b}"
proof -
  have run: "set (map word_of_nat [unat u..<Suc (unat v)]) = {c :: uint8_t. u \<le> c \<and> c \<le> v}" for u v
  proof (intro set_eqI iffI)
    fix c :: uint8_t
    assume "c \<in> set (map word_of_nat [unat u..<Suc (unat v)])"
    then obtain n where n: "unat u \<le> n" "n \<le> unat v" "c = word_of_nat n"
      by auto
    have "n < 256"
      using n(2) unat8_lt_256 [of v] by simp
    then have "unat c = n"
      using n(3) by (simp add: unat_of_nat8)
    then show "c \<in> {c. u \<le> c \<and> c \<le> v}"
      using n by (simp add: word_le_nat_alt)
  next
    fix c :: uint8_t
    assume "c \<in> {c. u \<le> c \<and> c \<le> v}"
    then have "unat u \<le> unat c" "unat c \<le> unat v"
      by (simp_all add: word_le_nat_alt)
    then have "unat c \<in> set [unat u..<Suc (unat v)]"
      by auto
    then have "word_of_nat (unat c) \<in> word_of_nat ` set [unat u..<Suc (unat v)]"
      by (rule imageI)
    then have "word_of_nat (unat c) \<in> set (map word_of_nat [unat u..<Suc (unat v)])"
      by (simp only: set_map)
    moreover have "word_of_nat (unat c) = c"
      by simp
    ultimately show "c \<in> set (map word_of_nat [unat u..<Suc (unat v)])"
      by (rule subst [where P = "\<lambda>z. z \<in> set (map word_of_nat [unat u..<Suc (unat v)])", rotated])
  qed
  show ?thesis
  proof (cases "a \<le> b")
    case True
    have "word_run a b = map word_of_nat [unat a..<Suc (unat b)]"
      using True by (simp only: word_run_def if_True)
    moreover have "min a b = a" "max a b = b"
      using True by (simp_all add: min_def max_def)
    ultimately show ?thesis
      by (simp only: run)
  next
    case False
    have "word_run a b = rev (map word_of_nat [unat b..<Suc (unat a)])"
      using False by (simp only: word_run_def if_False)
    moreover have "min a b = b" "max a b = a"
      using False by (simp_all add: min_def max_def)
    ultimately show ?thesis
      by (simp only: run set_rev)
  qed
qed

subsection \<open>Horizontal and vertical lines\<close>

lemma uint_succ_below:
  fixes a b :: uint8_t
  assumes "a < b"
  shows "uint (a + 1) = uint a + 1" and "a + 1 \<le> b"
proof -
  have lt: "uint a < uint b"
    using assms by (simp add: word_less_def)
  then have "uint a + 1 < 256"
    using uint8_lt_256 [of b] by simp
  then show u: "uint (a + 1) = uint a + 1"
    by (simp add: uint_word_ariths take_bit_int_eq_self flip: take_bit_eq_mod)
  show "a + 1 \<le> b"
    using lt u by (simp add: word_le_def)
qed

lemma uint_pred_above:
  fixes a b :: uint8_t
  assumes "b < a"
  shows "uint (a - 1) = uint a - 1" and "b \<le> a - 1"
proof -
  have lt: "uint b < uint a"
    using assms by (simp add: word_less_def)
  have "0 \<le> uint b"
    by simp
  with lt have "0 \<le> uint a - 1" "uint a - 1 < 256"
    using uint8_lt_256 [of a] by linarith+
  then show u: "uint (a - 1) = uint a - 1"
    by (simp add: uint_word_ariths take_bit_int_eq_self flip: take_bit_eq_mod)
  show "b \<le> a - 1"
    using lt u by (simp add: word_le_def)
qed

lemma word_of_int_steps: "word_of_int 1 = (1 :: uint8_t)" "(l_x :: uint8_t) + word_of_int (- 1) = l_x - 1"
  by simp_all

lemma draw_line_loop_horizontal:
  assumes dx: "0 \<le> l_dx" "l_dx \<le> 255"
    and up: "l_x < p_x2 \<Longrightarrow> l_sx = 1"
    and down: "p_x2 < l_x \<Longrightarrow> l_sx = - 1"
    and pos: "l_x \<noteq> p_x2 \<Longrightarrow> 1 \<le> l_dx"
  shows "draw_line_loop p_x2 y p_set l_dx 0 l_sx l_sy l_dx l_x y d =
           Some (plot_all p_set (map (\<lambda>x. (x, y)) (word_run l_x p_x2)) d)"
  using up down pos
proof (induction "nat \<bar>uint p_x2 - uint l_x\<bar>" arbitrary: l_x d rule: less_induct)
  case less
  note step = draw_line_loop_step [where l_err = l_dx and l_dx = l_dx and l_dy = 0
      and xe = p_x2 and ye = y and l_x = l_x and l_y = y and p_set = p_set
      and l_sx = l_sx and l_sy = l_sy and d = d]
  show ?case
  proof (cases "l_x = p_x2")
    case True
    then show ?thesis
      using dx by (subst step) (simp_all add: word_run_same plot_all_Cons)
  next
    case False
    then have one: "1 \<le> l_dx"
      by (rule less.prems(3))
    have next_turn: "draw_line_loop p_x2 y p_set l_dx 0 l_sx l_sy l_dx l_x y d =
        draw_line_loop p_x2 y p_set l_dx 0 l_sx l_sy l_dx (l_x + word_of_int l_sx) y (plot p_set (l_x, y) d)"
      using dx one False by (subst step) simp_all
    show ?thesis
    proof (cases "l_x < p_x2")
      case True
      then have sx: "l_sx = 1"
        by (rule less.prems(1))
      have u: "uint (l_x + 1) = uint l_x + 1" and le: "l_x + 1 \<le> p_x2"
        using uint_succ_below [OF True] by simp_all
      have "uint l_x < uint p_x2"
        using True by (simp add: word_less_def)
      then have m: "nat \<bar>uint p_x2 - uint (l_x + 1)\<bar> < nat \<bar>uint p_x2 - uint l_x\<bar>"
        using u by simp
      have nx: "l_x + word_of_int l_sx = l_x + 1"
        by (simp add: sx)
      have ih: "draw_line_loop p_x2 y p_set l_dx 0 l_sx l_sy l_dx (l_x + 1) y (plot p_set (l_x, y) d) =
          Some (plot_all p_set (map (\<lambda>x. (x, y)) (word_run (l_x + 1) p_x2)) (plot p_set (l_x, y) d))"
        using le sx one by (intro less.hyps [OF m]) (simp_all add: not_less [symmetric])
      show ?thesis
        unfolding next_turn nx ih word_run_up [OF True]
        by (simp add: plot_all_Cons)
    next
      case not_below: False
      then have above: "p_x2 < l_x"
        using False by (simp add: not_less order_less_le)
      then have sx: "l_sx = - 1"
        by (rule less.prems(2))
      have u: "uint (l_x - 1) = uint l_x - 1" and le: "p_x2 \<le> l_x - 1"
        using uint_pred_above [OF above] by simp_all
      have "uint p_x2 < uint l_x"
        using above by (simp add: word_less_def)
      then have m: "nat \<bar>uint p_x2 - uint (l_x - 1)\<bar> < nat \<bar>uint p_x2 - uint l_x\<bar>"
        using u by simp
      have nx: "l_x + word_of_int l_sx = l_x - 1"
        by (simp add: sx)
      have ih: "draw_line_loop p_x2 y p_set l_dx 0 l_sx l_sy l_dx (l_x - 1) y (plot p_set (l_x, y) d) =
          Some (plot_all p_set (map (\<lambda>x. (x, y)) (word_run (l_x - 1) p_x2)) (plot p_set (l_x, y) d))"
        using le sx one by (intro less.hyps [OF m]) (simp_all add: not_less [symmetric])
      show ?thesis
        unfolding next_turn nx ih word_run_down [OF above]
        by (simp add: plot_all_Cons)
    qed
  qed
qed

lemma draw_line_loop_vertical:
  assumes dy: "- 255 \<le> l_dy" "l_dy \<le> 0"
    and up: "l_y < p_y2 \<Longrightarrow> l_sy = 1"
    and down: "p_y2 < l_y \<Longrightarrow> l_sy = - 1"
    and neg: "l_y \<noteq> p_y2 \<Longrightarrow> l_dy \<le> - 1"
  shows "draw_line_loop x p_y2 p_set 0 l_dy l_sx l_sy l_dy x l_y d =
           Some (plot_all p_set (map (\<lambda>y. (x, y)) (word_run l_y p_y2)) d)"
  using up down neg
proof (induction "nat \<bar>uint p_y2 - uint l_y\<bar>" arbitrary: l_y d rule: less_induct)
  case less
  note step = draw_line_loop_step [where l_err = l_dy and l_dx = 0 and l_dy = l_dy
      and xe = x and ye = p_y2 and l_x = x and l_y = l_y and p_set = p_set
      and l_sx = l_sx and l_sy = l_sy and d = d]
  show ?case
  proof (cases "l_y = p_y2")
    case True
    then show ?thesis
      using dy by (subst step) (simp_all add: word_run_same plot_all_Cons)
  next
    case False
    then have one: "l_dy \<le> - 1"
      by (rule less.prems(3))
    have next_turn: "draw_line_loop x p_y2 p_set 0 l_dy l_sx l_sy l_dy x l_y d =
        draw_line_loop x p_y2 p_set 0 l_dy l_sx l_sy l_dy x (l_y + word_of_int l_sy) (plot p_set (x, l_y) d)"
      using dy one False by (subst step) simp_all
    show ?thesis
    proof (cases "l_y < p_y2")
      case True
      then have sy: "l_sy = 1"
        by (rule less.prems(1))
      have u: "uint (l_y + 1) = uint l_y + 1" and le: "l_y + 1 \<le> p_y2"
        using uint_succ_below [OF True] by simp_all
      have "uint l_y < uint p_y2"
        using True by (simp add: word_less_def)
      then have m: "nat \<bar>uint p_y2 - uint (l_y + 1)\<bar> < nat \<bar>uint p_y2 - uint l_y\<bar>"
        using u by simp
      have nx: "l_y + word_of_int l_sy = l_y + 1"
        by (simp add: sy)
      have ih: "draw_line_loop x p_y2 p_set 0 l_dy l_sx l_sy l_dy x (l_y + 1) (plot p_set (x, l_y) d) =
          Some (plot_all p_set (map (\<lambda>y. (x, y)) (word_run (l_y + 1) p_y2)) (plot p_set (x, l_y) d))"
        using le sy one by (intro less.hyps [OF m]) (simp_all add: not_less [symmetric])
      show ?thesis
        unfolding next_turn nx ih word_run_up [OF True]
        by (simp add: plot_all_Cons)
    next
      case not_below: False
      then have above: "p_y2 < l_y"
        using False by (simp add: not_less order_less_le)
      then have sy: "l_sy = - 1"
        by (rule less.prems(2))
      have u: "uint (l_y - 1) = uint l_y - 1" and le: "p_y2 \<le> l_y - 1"
        using uint_pred_above [OF above] by simp_all
      have "uint p_y2 < uint l_y"
        using above by (simp add: word_less_def)
      then have m: "nat \<bar>uint p_y2 - uint (l_y - 1)\<bar> < nat \<bar>uint p_y2 - uint l_y\<bar>"
        using u by simp
      have nx: "l_y + word_of_int l_sy = l_y - 1"
        by (simp add: sy)
      have ih: "draw_line_loop x p_y2 p_set 0 l_dy l_sx l_sy l_dy x (l_y - 1) (plot p_set (x, l_y) d) =
          Some (plot_all p_set (map (\<lambda>y. (x, y)) (word_run (l_y - 1) p_y2)) (plot p_set (x, l_y) d))"
        using le sy one by (intro less.hyps [OF m]) (simp_all add: not_less [symmetric])
      show ?thesis
        unfolding next_turn nx ih word_run_down [OF above]
        by (simp add: plot_all_Cons)
    qed
  qed
qed

lemma abs_delta:
  fixes a b :: uint8_t
  shows "0 \<le> \<bar>uint b - uint a\<bar>" "\<bar>uint b - uint a\<bar> \<le> 255"
    "int16_t \<bar>uint b - uint a\<bar> = \<bar>uint b - uint a\<bar>"
    "int16_t (\<bar>uint b - uint a\<bar> * - 1) = - \<bar>uint b - uint a\<bar>"
    "a \<noteq> b \<Longrightarrow> 1 \<le> \<bar>uint b - uint a\<bar>"
proof -
  have r: "0 \<le> uint a" "uint a < 256" "0 \<le> uint b" "uint b < 256"
    using uint8_lt_256 [of a] uint8_lt_256 [of b] by simp_all
  show "0 \<le> \<bar>uint b - uint a\<bar>"
    by simp
  show le: "\<bar>uint b - uint a\<bar> \<le> 255"
    using r by linarith
  show "int16_t \<bar>uint b - uint a\<bar> = \<bar>uint b - uint a\<bar>"
    using le by (intro int16_t_id) linarith+
  show "int16_t (\<bar>uint b - uint a\<bar> * - 1) = - \<bar>uint b - uint a\<bar>"
    using le int16_t_id [of "- \<bar>uint b - uint a\<bar>"] by simp
  show "1 \<le> \<bar>uint b - uint a\<bar>" if "a \<noteq> b"
  proof -
    have "uint a \<noteq> uint b"
      using that by (simp add: word_uint_eq_iff)
    then show ?thesis
      by linarith
  qed
qed

lemma draw_line_horizontal:
  "draw_line d x1 y x2 y p_set = Some (plot_all p_set (map (\<lambda>x. (x, y)) (word_run x1 x2)) d)"
proof -
  have "draw_line d x1 y x2 y p_set =
      draw_line_loop x2 y p_set \<bar>uint x2 - uint x1\<bar> 0 (if x1 < x2 then 1 else - 1) (- 1)
        \<bar>uint x2 - uint x1\<bar> x1 y d"
    using abs_delta(1,2) [of x2 x1]
    by (simp add: draw_line_def Let_def abs_delta(3) int16_t_id)
  also have "\<dots> = Some (plot_all p_set (map (\<lambda>x. (x, y)) (word_run x1 x2)) d)"
  proof (rule draw_line_loop_horizontal)
    show "0 \<le> \<bar>uint x2 - uint x1\<bar>" "\<bar>uint x2 - uint x1\<bar> \<le> 255"
      by (rule abs_delta)+
    show "(if x1 < x2 then 1 else - 1) = (1 :: int)" if "x1 < x2"
      using that by simp
    show "(if x1 < x2 then 1 else - 1) = (- 1 :: int)" if "x2 < x1"
      using that by (simp add: not_less [symmetric] less_imp_le)
    show "1 \<le> \<bar>uint x2 - uint x1\<bar>" if "x1 \<noteq> x2"
      using that by (rule abs_delta(5))
  qed
  finally show ?thesis .
qed

lemma draw_line_vertical:
  "draw_line d x y1 x y2 p_set = Some (plot_all p_set (map (\<lambda>y. (x, y)) (word_run y1 y2)) d)"
proof -
  have "draw_line d x y1 x y2 p_set =
      draw_line_loop x y2 p_set 0 (- \<bar>uint y2 - uint y1\<bar>) (- 1) (if y1 < y2 then 1 else - 1)
        (- \<bar>uint y2 - uint y1\<bar>) x y1 d"
    using abs_delta(1,2) [of y2 y1]
    by (simp add: draw_line_def Let_def abs_delta(4) int16_t_id)
  also have "\<dots> = Some (plot_all p_set (map (\<lambda>y. (x, y)) (word_run y1 y2)) d)"
  proof (rule draw_line_loop_vertical)
    show "- 255 \<le> - \<bar>uint y2 - uint y1\<bar>" "- \<bar>uint y2 - uint y1\<bar> \<le> 0"
      using abs_delta(2) [of y2 y1] by simp_all
    show "(if y1 < y2 then 1 else - 1) = (1 :: int)" if "y1 < y2"
      using that by simp
    show "(if y1 < y2 then 1 else - 1) = (- 1 :: int)" if "y2 < y1"
      using that by (simp add: not_less [symmetric] less_imp_le)
    show "- \<bar>uint y2 - uint y1\<bar> \<le> - 1" if "y1 \<noteq> y2"
      using abs_delta(5) [OF that] by simp
  qed
  finally show ?thesis .
qed

subsection \<open>Every line reaches its end point\<close>

text \<open>
  The invariant of the loop.  With \<open>a\<close> and \<open>b\<close> the numbers of columns and rows still to go,
  the error term is \<open>dx - ady + ady * a - dx * b\<close> (\<open>ady\<close> being \<open>- l_dy\<close>) and stays between
  \<open>- 2 * ady\<close> and \<open>2 * dx\<close>.  It follows that a turn never steps in a direction in which
  nothing is left to go, that every turn but the last steps at least once, and that no
  16-bit or 8-bit value overflows.
\<close>

lemma uint_step:
  fixes l_x xe :: uint8_t
  assumes "l_sx = 1 \<or> l_sx = - 1" and "1 \<le> l_sx * (uint xe - uint l_x)"
  shows "uint (l_x + word_of_int l_sx) = uint l_x + l_sx"
proof (cases "l_sx = 1")
  case True
  then have "l_x < xe"
    using assms(2) by (simp add: word_less_def)
  then show ?thesis
    using True uint_succ_below(1) [of l_x xe] by simp
next
  case False
  then have m: "l_sx = - 1"
    using assms(1) by simp
  then have "xe < l_x"
    using assms(2) by (simp add: word_less_def)
  then show ?thesis
    using m uint_pred_above(1) [of xe l_x] by simp
qed

lemma remaining_zero:
  fixes l_x xe :: uint8_t
  assumes "l_sx = 1 \<or> l_sx = - 1"
  shows "l_sx * (uint xe - uint l_x) = 0 \<longleftrightarrow> l_x = xe"
  using assms by (auto simp add: word_uint_eq_iff)

lemma bresenham_reaches_end:
  fixes l_x l_y xe ye :: uint8_t
  assumes dx: "0 \<le> l_dx" "l_dx \<le> 255" and dy: "0 \<le> ady" "ady \<le> 255"
    and sx: "l_sx = 1 \<or> l_sx = - 1" and sy: "l_sy = 1 \<or> l_sy = - 1"
    and a: "0 \<le> l_sx * (uint xe - uint l_x)" "l_sx * (uint xe - uint l_x) \<le> l_dx"
    and b: "0 \<le> l_sy * (uint ye - uint l_y)" "l_sy * (uint ye - uint l_y) \<le> ady"
    and err: "l_err = l_dx - ady + ady * (l_sx * (uint xe - uint l_x))
                - l_dx * (l_sy * (uint ye - uint l_y))"
    and bound: "- 2 * ady \<le> l_err" "l_err \<le> 2 * l_dx"
  shows "\<exists>pts. (\<forall>d. draw_line_loop xe ye p_set l_dx (- ady) l_sx l_sy l_err l_x l_y d
                       = Some (plot_all p_set pts d))
           \<and> pts \<noteq> [] \<and> hd pts = (l_x, l_y) \<and> last pts = (xe, ye)"
  using a b err bound
proof (induction "nat (l_sx * (uint xe - uint l_x) + l_sy * (uint ye - uint l_y))"
         arbitrary: l_err l_x l_y rule: less_induct)
  case less
  define ra where "ra = l_sx * (uint xe - uint l_x)"
  define rb where "rb = l_sy * (uint ye - uint l_y)"
  have ra: "0 \<le> ra" "ra \<le> l_dx" and rb: "0 \<le> rb" "rb \<le> ady"
    using less.prems(1-4) by (simp_all add: ra_def rb_def)
  have e: "l_err = l_dx - ady + ady * ra - l_dx * rb"
    using less.prems(5) by (simp add: ra_def rb_def)
  have lo: "- 2 * ady \<le> l_err" and hi: "l_err \<le> 2 * l_dx"
    using less.prems(6,7) by simp_all
  have small: "- 512 \<le> l_err" "l_err \<le> 512" "- 255 \<le> - ady" "- ady \<le> 0"
    using lo hi dx dy by simp_all
  note step = draw_line_loop_step [OF small(1,2) dx small(3,4), where xe = xe and ye = ye
      and p_set = p_set and l_sx = l_sx and l_sy = l_sy and l_x = l_x and l_y = l_y]
  show ?case
  proof (cases "l_x = xe \<and> l_y = ye")
    case True
    have "draw_line_loop xe ye p_set l_dx (- ady) l_sx l_sy l_err l_x l_y d
            = Some (plot_all p_set [(l_x, l_y)] d)" for d
      using True by (subst step) (simp add: plot_all_Cons)
    then show ?thesis
      using True by (intro exI [of _ "[(l_x, l_y)]"]) simp
  next
    case False
    then have left: "1 \<le> ra + rb"
      using ra(1) rb(1) remaining_zero [OF sx, of xe l_x] remaining_zero [OF sy, of ye l_y]
      unfolding ra_def rb_def by linarith
    define stepx where "stepx \<longleftrightarrow> - ady \<le> 2 * l_err"
    define stepy where "stepy \<longleftrightarrow> 2 * l_err \<le> l_dx"
    have some: "stepx \<or> stepy"
      unfolding stepx_def stepy_def using dx dy by linarith
    have x_left: "1 \<le> ra" if stepx
    proof (rule ccontr)
      assume "\<not> 1 \<le> ra"
      then have z: "ra = 0" and rb1: "1 \<le> rb"
        using ra(1) left by simp_all
      have "l_dx * 1 \<le> l_dx * rb"
        using rb1 dx(1) by (rule mult_left_mono)
      then have "l_err \<le> - ady"
        using e z by simp
      moreover have "1 \<le> ady"
        using rb1 rb(2) by simp
      ultimately show False
        using that unfolding stepx_def by linarith
    qed
    have y_left: "1 \<le> rb" if stepy
    proof (rule ccontr)
      assume "\<not> 1 \<le> rb"
      then have z: "rb = 0" and ra1: "1 \<le> ra"
        using rb(1) left by simp_all
      have "ady * 1 \<le> ady * ra"
        using ra1 dy(1) by (rule mult_left_mono)
      then have "l_dx \<le> l_err"
        using e z by simp
      moreover have "1 \<le> l_dx"
        using ra1 ra(2) by simp
      ultimately show False
        using that unfolding stepy_def by linarith
    qed
    define nx where "nx = (if stepx then l_x + word_of_int l_sx else l_x)"
    define ny where "ny = (if stepy then l_y + word_of_int l_sy else l_y)"
    define ne where "ne = l_err + (if stepx then - ady else 0) + (if stepy then l_dx else 0)"
    define na where "na = (if stepx then ra - 1 else ra)"
    define nb where "nb = (if stepy then rb - 1 else rb)"
    have sq: "l_sx * l_sx = 1" "l_sy * l_sy = 1"
      using sx sy by auto
    have na: "l_sx * (uint xe - uint nx) = na"
    proof (cases stepx)
      case True
      have "uint nx = uint l_x + l_sx"
        using True x_left [OF True] sx by (simp add: nx_def ra_def uint_step)
      then have "l_sx * (uint xe - uint nx) = l_sx * (uint xe - uint l_x) - l_sx * l_sx"
        by (simp add: algebra_simps)
      then show ?thesis
        using True by (simp add: na_def ra_def sq)
    next
      case False
      then show ?thesis
        by (simp add: na_def nx_def ra_def)
    qed
    have nb: "l_sy * (uint ye - uint ny) = nb"
    proof (cases stepy)
      case True
      have "uint ny = uint l_y + l_sy"
        using True y_left [OF True] sy by (simp add: ny_def rb_def uint_step)
      then have "l_sy * (uint ye - uint ny) = l_sy * (uint ye - uint l_y) - l_sy * l_sy"
        by (simp add: algebra_simps)
      then show ?thesis
        using True by (simp add: nb_def rb_def sq)
    next
      case False
      then show ?thesis
        by (simp add: nb_def ny_def rb_def)
    qed
    have na_range: "0 \<le> na" "na \<le> l_dx" and nb_range: "0 \<le> nb" "nb \<le> ady"
      using ra rb x_left y_left by (auto simp add: na_def nb_def)
    have ne: "ne = l_dx - ady + ady * na - l_dx * nb"
      unfolding ne_def na_def nb_def e by (simp add: algebra_simps)
    have ne_range: "- 2 * ady \<le> ne" "ne \<le> 2 * l_dx"
      using lo hi dx dy unfolding ne_def stepx_def stepy_def by (auto split: if_splits)
    have less_left: "nat (na + nb) < nat (ra + rb)"
      using some left na_range nb_range by (auto simp add: na_def nb_def)
    have "\<exists>pts. (\<forall>d. draw_line_loop xe ye p_set l_dx (- ady) l_sx l_sy ne nx ny d
                       = Some (plot_all p_set pts d))
           \<and> pts \<noteq> [] \<and> hd pts = (nx, ny) \<and> last pts = (xe, ye)"
    proof (rule less.hyps)
      show "nat (l_sx * (uint xe - uint nx) + l_sy * (uint ye - uint ny))
          < nat (l_sx * (uint xe - uint l_x) + l_sy * (uint ye - uint l_y))"
        using less_left by (simp only: na nb ra_def [symmetric] rb_def [symmetric])
      show "0 \<le> l_sx * (uint xe - uint nx)" "l_sx * (uint xe - uint nx) \<le> l_dx"
        using na_range by (simp_all only: na)
      show "0 \<le> l_sy * (uint ye - uint ny)" "l_sy * (uint ye - uint ny) \<le> ady"
        using nb_range by (simp_all only: nb)
      show "ne = l_dx - ady + ady * (l_sx * (uint xe - uint nx)) - l_dx * (l_sy * (uint ye - uint ny))"
        using ne by (simp only: na nb)
      show "- 2 * ady \<le> ne" "ne \<le> 2 * l_dx"
        by (rule ne_range)+
    qed
    then obtain pts where pts:
      "\<And>d. draw_line_loop xe ye p_set l_dx (- ady) l_sx l_sy ne nx ny d = Some (plot_all p_set pts d)"
      "pts \<noteq> []" "last pts = (xe, ye)"
      by blast
    have turn: "draw_line_loop xe ye p_set l_dx (- ady) l_sx l_sy l_err l_x l_y d =
        draw_line_loop xe ye p_set l_dx (- ady) l_sx l_sy ne nx ny (plot p_set (l_x, l_y) d)" for d
      unfolding ne_def nx_def ny_def stepx_def stepy_def
      by (subst step) (simp only: if_not_P [OF False])
    have "\<forall>d. draw_line_loop xe ye p_set l_dx (- ady) l_sx l_sy l_err l_x l_y d
            = Some (plot_all p_set ((l_x, l_y) # pts) d)"
      by (simp add: turn pts(1) plot_all_Cons)
    then show ?thesis
      using pts(2,3) by (intro exI [of _ "(l_x, l_y) # pts"]) simp
  qed
qed

lemma draw_line_reaches_end:
  "\<exists>pts. (\<forall>d. draw_line d x1 y1 x2 y2 p_set = Some (plot_all p_set pts d))
         \<and> pts \<noteq> [] \<and> hd pts = (x1, y1) \<and> last pts = (x2, y2)"
proof -
  define l_dx where "l_dx = \<bar>uint x2 - uint x1\<bar>"
  define ady where "ady = \<bar>uint y2 - uint y1\<bar>"
  define l_sx :: int where "l_sx = (if x1 < x2 then 1 else - 1)"
  define l_sy :: int where "l_sy = (if y1 < y2 then 1 else - 1)"
  have dx: "0 \<le> l_dx" "l_dx \<le> 255" and dy: "0 \<le> ady" "ady \<le> 255"
    unfolding l_dx_def ady_def by (rule abs_delta)+
  have ra: "l_sx * (uint x2 - uint x1) = l_dx"
    unfolding l_sx_def l_dx_def by (auto simp add: word_less_def)
  have rb: "l_sy * (uint y2 - uint y1) = ady"
    unfolding l_sy_def ady_def by (auto simp add: word_less_def)
  have loop: "draw_line d x1 y1 x2 y2 p_set =
      draw_line_loop x2 y2 p_set l_dx (- ady) l_sx l_sy (l_dx - ady) x1 y1 d" for d
    using dx dy
    by (simp add: draw_line_def Let_def abs_delta(3,4) int16_t_id
          l_dx_def [symmetric] ady_def [symmetric] l_sx_def [symmetric] l_sy_def [symmetric])
  have "\<exists>pts. (\<forall>d. draw_line_loop x2 y2 p_set l_dx (- ady) l_sx l_sy (l_dx - ady) x1 y1 d
                       = Some (plot_all p_set pts d))
           \<and> pts \<noteq> [] \<and> hd pts = (x1, y1) \<and> last pts = (x2, y2)"
  proof (rule bresenham_reaches_end [OF dx dy])
    show "l_sx = 1 \<or> l_sx = - 1" "l_sy = 1 \<or> l_sy = - 1"
      by (simp_all add: l_sx_def l_sy_def)
    show "0 \<le> l_sx * (uint x2 - uint x1)" "l_sx * (uint x2 - uint x1) \<le> l_dx"
      using dx by (simp_all only: ra)
    show "0 \<le> l_sy * (uint y2 - uint y1)" "l_sy * (uint y2 - uint y1) \<le> ady"
      using dy by (simp_all only: rb)
    show "l_dx - ady = l_dx - ady + ady * (l_sx * (uint x2 - uint x1))
            - l_dx * (l_sy * (uint y2 - uint y1))"
      by (simp only: ra rb) (simp add: mult.commute)
    show "- 2 * ady \<le> l_dx - ady" "l_dx - ady \<le> 2 * l_dx"
      using dx dy by simp_all
  qed
  then show ?thesis
    by (simp only: loop)
qed

subsection \<open>Boxes\<close>

lemma rows_down_step:
  assumes "y < i"
  shows "rows_down i y = (i - 1) # rows_down (i - 1) y"
proof (cases "y < i - 1")
  case True
  then show ?thesis
    using assms by (simp add: rows_down_def word_run_down [OF True])
next
  case False
  have "y \<le> i - 1"
    by (rule uint_pred_above(2) [OF assms])
  with False have "i - 1 = y"
    by (simp add: not_less)
  then show ?thesis
    using assms False by (simp add: rows_down_def word_run_same)
qed

lemma draw_box_rows_plot:
  "draw_box_rows p_x p_y p_width l_index d =
     Some (plot_all True (concat (map (row_cells p_x p_width) (rows_down l_index p_y))) d)"
proof (induction p_x p_y p_width l_index d rule: draw_box_rows.induct)
  case (1 p_x p_y p_width l_index d)
  show ?case
  proof (cases "p_y < l_index")
    case True
    have line: "draw_line d p_x (l_index - 1) (p_x + p_width) (l_index - 1) True =
        Some (plot_all True (row_cells p_x p_width (l_index - 1)) d)"
      by (simp add: draw_line_horizontal row_cells_def)
    have "draw_box_rows p_x p_y p_width l_index d =
        draw_box_rows p_x p_y p_width (l_index - 1) (plot_all True (row_cells p_x p_width (l_index - 1)) d)"
      using True by (subst draw_box_rows.simps) (simp add: line)
    also have "\<dots> = Some (plot_all True (concat (map (row_cells p_x p_width) (rows_down (l_index - 1) p_y)))
        (plot_all True (row_cells p_x p_width (l_index - 1)) d))"
      using True line by (rule "1.IH")
    finally show ?thesis
      by (simp add: rows_down_step [OF True] plot_all_append)
  next
    case False
    then show ?thesis
      by (subst draw_box_rows.simps) (simp add: rows_down_def)
  qed
qed

text \<open>The counter of the filled box starts above \<open>p_y\<close> exactly when \<open>p_y + p_height + 1\<close> does not wrap.\<close>

lemma box_counter_start:
  fixes p_y p_height :: uint8_t
  shows "p_y < p_y + p_height + 1 \<longleftrightarrow> unat p_y + unat p_height < 255"
proof -
  have r: "unat p_y < 256" "unat p_height < 256"
    by (rule unat8_lt_256)+
  have u: "unat (p_y + p_height + 1) = (unat p_y + unat p_height + 1) mod 256"
    by (simp add: unat_word_ariths mod_simps)
  show ?thesis
  proof (cases "unat p_y + unat p_height < 255")
    case True
    then have "unat (p_y + p_height + 1) = unat p_y + unat p_height + 1"
      using u by simp
    then show ?thesis
      using True by (simp add: word_less_nat_alt)
  next
    case False
    then have "256 \<le> unat p_y + unat p_height + 1" "unat p_y + unat p_height + 1 < 512"
      using r by simp_all
    then have "(unat p_y + unat p_height + 1) mod 256 = unat p_y + unat p_height + 1 - 256"
      by (simp add: mod_if le_mod_geq)
    then have "unat (p_y + p_height + 1) \<le> unat p_y"
      using u r by simp
    then show ?thesis
      using False by (simp add: word_less_nat_alt)
  qed
qed

lemma draw_box_filled:
  "draw_box d p_x p_y p_width p_height True p_set =
     Some (plot_all True
             (concat (map (row_cells p_x p_width)
                (if unat p_y + unat p_height < 255 then word_run (p_y + p_height) p_y else [])))
             d)"
  by (simp add: draw_box_def draw_box_rows_plot rows_down_def box_counter_start)

lemma draw_box_outline:
  "draw_box d p_x p_y p_width p_height False p_set =
     Some (plot_all p_set
             (row_cells p_x p_width p_y @ row_cells p_x p_width (p_y + p_height) @
              column_cells p_x p_y p_height @ column_cells (p_x + p_width) p_y p_height)
             d)"
  by (simp add: draw_box_def draw_line_horizontal draw_line_vertical
        row_cells_def column_cells_def plot_all_append)

lemma set_row_cells:
  "(a, b) \<in> set (row_cells x w r) \<longleftrightarrow> b = r \<and> min x (x + w) \<le> a \<and> a \<le> max x (x + w)"
  by (auto simp add: row_cells_def set_word_run)

lemma set_column_cells:
  "(a, b) \<in> set (column_cells c y h) \<longleftrightarrow> a = c \<and> min y (y + h) \<le> b \<and> b \<le> max y (y + h)"
  by (auto simp add: column_cells_def set_word_run)

lemma draw_box_filled_cells:
  "draw_box d p_x p_y p_width p_height True p_set =
     Some (plot_all True (filled_cells p_x p_y p_width p_height) d)"
  by (simp only: draw_box_filled filled_cells_def)

lemma draw_box_outline_cells:
  "draw_box d p_x p_y p_width p_height False p_set =
     Some (plot_all p_set (outline_cells p_x p_y p_width p_height) d)"
  by (simp only: draw_box_outline outline_cells_def)

lemma set_outline_cells:
  "(a, b) \<in> set (outline_cells x y w h) \<longleftrightarrow>
     (min x (x + w) \<le> a \<and> a \<le> max x (x + w) \<and> (b = y \<or> b = y + h)) \<or>
     (min y (y + h) \<le> b \<and> b \<le> max y (y + h) \<and> (a = x \<or> a = x + w))"
  by (auto simp add: outline_cells_def set_row_cells set_column_cells)

lemma set_filled_cells:
  "(a, b) \<in> set (filled_cells x y w h) \<longleftrightarrow>
     unat y + unat h < 255 \<and> y \<le> b \<and> b \<le> y + h \<and> min x (x + w) \<le> a \<and> a \<le> max x (x + w)"
proof (cases "unat y + unat h < 255")
  case True
  then have "unat (y + h) = unat y + unat h"
    by (simp add: unat_word_ariths)
  then have "y \<le> y + h"
    by (simp add: word_le_nat_alt)
  then have mm: "min (y + h) y = y" "max (y + h) y = y + h"
    by (simp_all add: min_def max_def)
  have "(a, b) \<in> set (filled_cells x y w h) \<longleftrightarrow>
      (\<exists>r \<in> set (word_run (y + h) y). (a, b) \<in> set (row_cells x w r))"
    using True by (simp add: filled_cells_def)
  also have "\<dots> \<longleftrightarrow> y \<le> b \<and> b \<le> y + h \<and> min x (x + w) \<le> a \<and> a \<le> max x (x + w)"
    by (auto simp add: set_row_cells set_word_run mm)
  finally show ?thesis
    using True by simp
next
  case False
  then show ?thesis
    by (simp add: filled_cells_def)
qed

section \<open>Lines\<close>

text \<open>
  C7.  For every pair of end points, every driver and either value of the \<open>set\<close> flag,
  \<open>draw_line\<close> terminates.  On a driver with the constructor's geometry, the pixel at
  \<open>(x1, y1)\<close> and the pixel at \<open>(x2, y2)\<close> are on afterwards when the flag is true and off
  when it is false, each provided it lies inside the display (otherwise it is clipped).
  This covers the horizontal and the vertical lines; in the single-point case
  \<open>x1 = x2\<close>, \<open>y1 = y2\<close> the loop performs exactly one pixel operation, at that point.
\<close>

theorem draw_line_endpoints:
  "\<exists>d'. draw_line d x1 y1 x2 y2 p_set = Some d'
     \<and> (geometry_ok d \<and> x1 < width d \<and> y1 < height d \<longrightarrow> pixel_at d' x1 y1 = p_set)
     \<and> (geometry_ok d \<and> x2 < width d \<and> y2 < height d \<longrightarrow> pixel_at d' x2 y2 = p_set)
     \<and> (x1 = x2 \<and> y1 = y2 \<longrightarrow> d' = plot p_set (x1, y1) d)"
proof -
  obtain pts where line: "draw_line d x1 y1 x2 y2 p_set = Some (plot_all p_set pts d)"
    and pts: "pts \<noteq> []" "hd pts = (x1, y1)" "last pts = (x2, y2)"
    using draw_line_reaches_end [of x1 y1 x2 y2 p_set] by blast
  have first: "(x1, y1) \<in> set pts" and final: "(x2, y2) \<in> set pts"
    using pts hd_in_set [of pts] last_in_set [of pts] by simp_all
  have "pixel_at (plot_all p_set pts d) x1 y1 = p_set"
    if "geometry_ok d" "x1 < width d" "y1 < height d"
    using pixel_at_plot_all [OF that, of p_set pts] first by simp
  moreover have "pixel_at (plot_all p_set pts d) x2 y2 = p_set"
    if "geometry_ok d" "x2 < width d" "y2 < height d"
    using pixel_at_plot_all [OF that, of p_set pts] final by simp
  moreover have "plot_all p_set pts d = plot p_set (x1, y1) d" if "x1 = x2 \<and> y1 = y2"
  proof -
    have "draw_line d x1 y1 x2 y2 p_set = Some (plot_all p_set [(x1, y1)] d)"
      using that draw_line_horizontal [of d x1 y1 x1 p_set] by (simp add: word_run_same)
    then show ?thesis
      using line by (simp add: plot_all_Cons)
  qed
  ultimately show ?thesis
    using line by blast
qed

theorem draw_line_endpoints_witness:
  "geometry_ok l_display \<and> (60 :: uint8_t) < width l_display \<and> (0 :: uint8_t) < height l_display
   \<and> (66 :: uint8_t) < width l_display \<and> (31 :: uint8_t) < height l_display
   \<and> (\<exists>d'. draw_line l_display 60 0 66 31 True = Some d' \<and> pixel_at d' 60 0 \<and> pixel_at d' 66 31)"
proof -
  have g: "geometry_ok l_display"
    and r: "(60 :: uint8_t) < width l_display" "(0 :: uint8_t) < height l_display"
      "(66 :: uint8_t) < width l_display" "(31 :: uint8_t) < height l_display"
    by (simp_all add: l_display_fields)
  obtain d' where "draw_line l_display 60 0 66 31 True = Some d'"
    and "geometry_ok l_display \<and> 60 < width l_display \<and> 0 < height l_display \<longrightarrow> pixel_at d' 60 0 = True"
    and "geometry_ok l_display \<and> 66 < width l_display \<and> 31 < height l_display \<longrightarrow> pixel_at d' 66 31 = True"
    using draw_line_endpoints [of l_display 60 0 66 31 True] by blast
  with g r show ?thesis
    by auto
qed

section \<open>Boxes\<close>

text \<open>
  C4.  The filled \<open>draw_box\<close> does not look at its \<open>set\<close> argument: whatever it is, the call
  gives what it gives for \<open>set = true\<close>, namely the driver with the pixels of the rows drawn
  by \<open>set_pixel\<close> (\<open>plot_all True\<close>); in particular \<open>draw_box(..., true, false)\<close> sets these
  pixels and clears none.  The unfilled \<open>draw_box\<close> passes \<open>set\<close> on to its four lines: the
  pixels of the four edges are set when it is true and cleared when it is false.
\<close>

theorem draw_box_filled_ignores_set:
  "draw_box d p_x p_y p_width p_height True p_set = draw_box d p_x p_y p_width p_height True True
   \<and> draw_box d p_x p_y p_width p_height True p_set =
       Some (plot_all True (filled_cells p_x p_y p_width p_height) d)
   \<and> draw_box d p_x p_y p_width p_height False p_set =
       Some (plot_all p_set (outline_cells p_x p_y p_width p_height) d)"
  by (simp only: draw_box_filled_cells draw_box_outline_cells simp_thms)

theorem draw_box_filled_ignores_set_witness:
  "draw_box l_display 0 0 64 31 True False = Some (plot_all True (filled_cells 0 0 64 31) l_display)
   \<and> \<not> pixel_at l_display 5 5
   \<and> pixel_at (plot_all True (filled_cells 0 0 64 31) l_display) 5 5
   \<and> draw_box (set_pixel l_display 64 7) 0 0 64 31 False False =
       Some (plot_all False (outline_cells 0 0 64 31) (set_pixel l_display 64 7))
   \<and> pixel_at (set_pixel l_display 64 7) 64 7
   \<and> \<not> pixel_at (plot_all False (outline_cells 0 0 64 31) (set_pixel l_display 64 7)) 64 7"
proof -
  have g: "geometry_ok l_display" and r: "(5 :: uint8_t) < width l_display" "(5 :: uint8_t) < height l_display"
    and e: "(64 :: uint8_t) < width l_display" "(7 :: uint8_t) < height l_display"
    by (simp_all add: l_display_fields)
  have "(5, 5) \<in> set (filled_cells 0 0 64 31)"
    by (simp add: set_filled_cells)
  then have lit: "pixel_at (plot_all True (filled_cells 0 0 64 31) l_display) 5 5"
    by (simp add: pixel_at_plot_all [OF g r])
  have on: "pixel_at (set_pixel l_display 64 7) 64 7"
    by (rule pixel_at_set_same [OF g e])
  have "(64, 7) \<in> set (outline_cells 0 0 64 31)"
    by (simp add: set_outline_cells)
  then have off: "\<not> pixel_at (plot_all False (outline_cells 0 0 64 31) (set_pixel l_display 64 7)) 64 7"
    using g e by (subst pixel_at_plot_all) simp_all
  show ?thesis
    using draw_box_filled_ignores_set [of l_display 0 0 64 31 False]
      draw_box_filled_ignores_set [of "set_pixel l_display 64 7" 0 0 64 31 False]
      l_display_dark [OF r] lit on off
    by blast
qed

text \<open>
  C8.  On every driver with the constructor's geometry, \<open>draw_box(10, 10, 20, 6, false)\<close>
  and \<open>draw_box(10, 10, 20, 6, true)\<close> terminate.  After the first, a pixel of the display
  is on exactly if it was on before or lies on the perimeter of the rectangle with the
  corners (10, 10) and (30, 16), which is 21 columns wide and 7 rows high; after the second,
  exactly if it was on before or lies in that rectangle.  No other pixel changes.
\<close>

theorem draw_box_outline_and_filled:
  "\<exists>d1 d2. draw_box d 10 10 20 6 False True = Some d1 \<and> draw_box d 10 10 20 6 True True = Some d2
     \<and> (\<forall>x y. geometry_ok d \<and> x < width d \<and> y < height d \<longrightarrow>
          (pixel_at d1 x y \<longleftrightarrow>
             pixel_at d x y \<or>
             (10 \<le> x \<and> x \<le> 30 \<and> 10 \<le> y \<and> y \<le> 16 \<and> (x = 10 \<or> x = 30 \<or> y = 10 \<or> y = 16)))
        \<and> (pixel_at d2 x y \<longleftrightarrow>
             pixel_at d x y \<or> (10 \<le> x \<and> x \<le> 30 \<and> 10 \<le> y \<and> y \<le> 16)))"
proof -
  have o: "(x, y) \<in> set (outline_cells 10 10 20 6) \<longleftrightarrow>
      10 \<le> x \<and> x \<le> 30 \<and> 10 \<le> y \<and> y \<le> 16 \<and> (x = 10 \<or> x = 30 \<or> y = 10 \<or> y = 16)"
    for x y :: uint8_t
    by (auto simp add: set_outline_cells)
  have f: "(x, y) \<in> set (filled_cells 10 10 20 6) \<longleftrightarrow> 10 \<le> x \<and> x \<le> 30 \<and> 10 \<le> y \<and> y \<le> 16"
    for x y :: uint8_t
    by (auto simp add: set_filled_cells)
  show ?thesis
    by (intro exI [of _ "plot_all True (outline_cells 10 10 20 6) d"]
          exI [of _ "plot_all True (filled_cells 10 10 20 6) d"])
       (simp add: draw_box_filled_cells draw_box_outline_cells pixel_at_plot_all o f)
qed

theorem draw_box_outline_and_filled_witness:
  "\<exists>d1 d2. draw_box l_display 10 10 20 6 False True = Some d1
     \<and> draw_box l_display 10 10 20 6 True True = Some d2
     \<and> pixel_at d1 10 10 \<and> pixel_at d1 30 16 \<and> \<not> pixel_at d1 20 13 \<and> \<not> pixel_at d1 31 10
     \<and> pixel_at d2 10 10 \<and> pixel_at d2 30 16 \<and> pixel_at d2 20 13 \<and> \<not> pixel_at d2 31 10"
proof -
  obtain d1 d2 where b: "draw_box l_display 10 10 20 6 False True = Some d1"
    "draw_box l_display 10 10 20 6 True True = Some d2"
    and p: "\<forall>x y. geometry_ok l_display \<and> x < width l_display \<and> y < height l_display \<longrightarrow>
          (pixel_at d1 x y \<longleftrightarrow>
             pixel_at l_display x y \<or>
             (10 \<le> x \<and> x \<le> 30 \<and> 10 \<le> y \<and> y \<le> 16 \<and> (x = 10 \<or> x = 30 \<or> y = 10 \<or> y = 16)))
        \<and> (pixel_at d2 x y \<longleftrightarrow>
             pixel_at l_display x y \<or> (10 \<le> x \<and> x \<le> 30 \<and> 10 \<le> y \<and> y \<le> 16))"
    using draw_box_outline_and_filled [of l_display] by blast
  have q: "pixel_at d1 x y \<longleftrightarrow>
      10 \<le> x \<and> x \<le> 30 \<and> 10 \<le> y \<and> y \<le> 16 \<and> (x = 10 \<or> x = 30 \<or> y = 10 \<or> y = 16)"
    "pixel_at d2 x y \<longleftrightarrow> 10 \<le> x \<and> x \<le> 30 \<and> 10 \<le> y \<and> y \<le> 16"
    if "x < 128" "y < 32" for x y
    using p that l_display_dark [of x y] by (simp_all add: l_display_fields)
  show ?thesis
    using b by (simp add: q)
qed


end
